theory Spec2Isabelle
  imports Main "HOL-Library.Word"
begin

unbundle bit_operations_syntax

chapter \<open>The model\<close>

section \<open>Common vocabulary\<close>

text \<open>
  Guest-visible error numbers. The C helpers \<open>einval()\<close>, \<open>enomem()\<close>, ... store the
  number in the thread's \<open>errno\<close> and return \<open>-1\<close>; the model returns the number that was
  stored next to the return value.
\<close>

datatype errno = EINVAL | EFAULT | ENOMEM | ENOTSUP | EBADF | EMFILE | ENFILE

type_synonym u8 = "8 word"
type_synonym u16 = "16 word"
type_synonym u32 = "32 word"
type_synonym u64 = "64 word"

section \<open>The descriptor table (\<open>AddFd\<close>)\<close>

text \<open>
  \<open>struct Fd\<close> of \<open>blink/fds.h\<close>. The descriptor's own mutex and its list links carry no
  data; \<open>dirstream\<close> is a host pointer that \<open>calloc\<close> leaves null. The table
  \<open>struct Fds\<close> is a doubly linked list whose first element is the one added last: a
  HOL list with the newest descriptor at the head.
\<close>

datatype FdCb = kFdCbHost

record Fd =
  fildes :: int
  oflags :: int
  socktype :: int
  norestart :: bool
  dirstream :: "nat option"
  cb :: "FdCb option"

text \<open>What \<open>calloc(1, sizeof(struct Fd))\<close> hands out: every field zero.\<close>

definition calloc_Fd :: Fd where
  "calloc_Fd = \<lparr> fildes = 0, oflags = 0, socktype = 0, norestart = False,
                 dirstream = None, cb = None \<rparr>"

text \<open>
  \<open>AddFd(fds, fildes, oflags)\<close>. The first argument says whether \<open>calloc\<close> succeeds.
  The result is the returned pointer (\<open>None\<close> for null), the descriptor list afterwards,
  and the \<open>errno\<close> the call stored (\<open>None\<close> when it stored none).
\<close>

definition AddFd :: "bool \<Rightarrow> Fd list \<Rightarrow> int \<Rightarrow> int \<Rightarrow> Fd option \<times> Fd list \<times> errno option" where
  "AddFd calloc_ok fds_list fildes' oflags' =
     (if fildes' \<ge> 0 then
        (if calloc_ok then
           (let fd = calloc_Fd \<lparr> cb := Some kFdCbHost, fildes := fildes', oflags := oflags' \<rparr>
            in (Some fd, fd # fds_list, None))
         else (None, fds_list, None))
      else (None, fds_list, Some EINVAL))"

section \<open>The \<open>pipe2\<close> system call (\<open>SysPipe2\<close>)\<close>

text \<open>
  How a call ends: it returns a value (with the \<open>errno\<close> it stored, if any, and the state
  it leaves), or the process is terminated by a failed \<open>unassert\<close>, \<open>exit\<close> or panic.
\<close>

datatype 'st outcome = Returns int "errno option" 'st | Aborts

text \<open>
  The guest's flag bits are those of the Linux ABI (\<open>blink/linux.h\<close> is not among the
  sources; the theorems below only use that they are the two supported bits).
\<close>

definition O_CLOEXEC_LINUX :: int where
  "O_CLOEXEC_LINUX = 0x80000"

definition O_NDELAY_LINUX :: int where
  "O_NDELAY_LINUX = 0x800"

text \<open>
  The host's own \<open>O_XXX\<close> and \<open>FD_CLOEXEC\<close> values differ between hosts; they are
  parameters. What the host answers during one call is a parameter too: the result of
  \<open>pipe()\<close> (the two descriptors, or the \<open>errno\<close> it failed with), whether every
  \<open>fcntl()\<close> returns 0, and whether each of the two \<open>calloc()\<close> calls of \<open>AddFd\<close>
  succeeds.
\<close>

record HostConsts =
  O_RDONLY :: int
  O_WRONLY :: int
  O_CLOEXEC :: int
  O_NDELAY :: int
  FD_CLOEXEC :: int

record PipeHost =
  pipe_result :: "errno + (int \<times> int)"
  fcntl_ok :: bool
  calloc_first :: bool
  calloc_second :: bool

datatype fcntl_cmd = F_SETFD | F_SETFL

datatype hostcall = HostPipe int int | HostFcntl int fcntl_cmd int

text \<open>
  The part of \<open>struct Machine\<close> and its \<open>struct System\<close> that \<open>SysPipe2\<close> touches: the
  descriptor table, guest memory as bytes at guest addresses with the set of addresses
  the guest may write, and the host calls made so far (newest first). The locks
  \<open>exec_lock\<close> and \<open>fds.lock\<close> order concurrent calls and hold no data; one call is
  modelled on its own.
\<close>

record PipeMachine =
  fds :: "Fd list"
  gbytes :: "int \<Rightarrow> u8"
  gwritable :: "int \<Rightarrow> bool"
  hostcalls :: "hostcall list"

text \<open>
  Modelled from the spec: \<open>IsValidMemory\<close> and \<open>CopyToUserWrite\<close> are not among the
  sources. The spec has \<open>EFAULT\<close> for a guest pointer that fails \<open>IsValidMemory\<close>, and
  \<open>pipe2\<close> write the bytes at \<open>addr\<close>: a range is valid for writing when each of its
  addresses is writable, and the copy stores the bytes at consecutive addresses and
  returns 0, or returns \<open>-1\<close> on a range that is not valid.
\<close>

definition IsValidMemory_write :: "PipeMachine \<Rightarrow> int \<Rightarrow> nat \<Rightarrow> bool" where
  "IsValidMemory_write m addr n = (\<forall>i \<in> set [0..<n]. gwritable m (addr + int i))"

fun store_bytes :: "(int \<Rightarrow> u8) \<Rightarrow> int \<Rightarrow> u8 list \<Rightarrow> (int \<Rightarrow> u8)" where
  "store_bytes mem addr [] = mem"
| "store_bytes mem addr (b # bs) = store_bytes (mem(addr := b)) (addr + 1) bs"

definition CopyToUserWrite :: "PipeMachine \<Rightarrow> int \<Rightarrow> u8 list \<Rightarrow> int \<times> PipeMachine" where
  "CopyToUserWrite m addr bs =
     (if IsValidMemory_write m addr (length bs)
      then (0, m \<lparr> gbytes := store_bytes (gbytes m) addr bs \<rparr>)
      else (-1, m))"

text \<open>\<open>Write32\<close> of \<open>blink/endian.h\<close>: the four bytes of a 32-bit value, lowest first.\<close>

definition Write32 :: "u32 \<Rightarrow> u8 list" where
  "Write32 x = [ucast x, ucast (drop_bit 8 x), ucast (drop_bit 16 x), ucast (drop_bit 24 x)]"

text \<open>
  \<open>SysPipe2(m, pipefds_addr, flags)\<close>, statement by statement. \<open>unassert(e)\<close> ends the
  process when \<open>e\<close> is false.
\<close>

definition SysPipe2 ::
  "HostConsts \<Rightarrow> PipeHost \<Rightarrow> PipeMachine \<Rightarrow> int \<Rightarrow> int \<Rightarrow> PipeMachine outcome" where
  "SysPipe2 hc h m pipefds_addr flags =
     (let supported = O_CLOEXEC_LINUX OR O_NDELAY_LINUX in
      if flags AND NOT supported \<noteq> 0 then Returns (-1) (Some EINVAL) m
      else if \<not> IsValidMemory_write m pipefds_addr 8 then Returns (-1) (Some EFAULT) m
      else
        (case pipe_result h of
           Inl e \<Rightarrow> Returns (-1) (Some e) m
         | Inr (fd0, fd1) \<Rightarrow>
            (let m1 = m \<lparr> hostcalls := HostPipe fd0 fd1 # hostcalls m \<rparr>;
                 cloexec = (flags AND O_CLOEXEC_LINUX \<noteq> 0);
                 ndelay = (flags AND O_NDELAY_LINUX \<noteq> 0);
                 oflags1 = (if cloexec then 0 OR O_CLOEXEC hc else 0);
                 m2 = (if cloexec
                       then m1 \<lparr> hostcalls := HostFcntl fd1 F_SETFD (FD_CLOEXEC hc) #
                                   HostFcntl fd0 F_SETFD (FD_CLOEXEC hc) # hostcalls m1 \<rparr>
                       else m1);
                 oflags2 = (if ndelay then oflags1 OR O_NDELAY hc else oflags1);
                 m3 = (if ndelay
                       then m2 \<lparr> hostcalls := HostFcntl fd1 F_SETFL (O_NDELAY hc) #
                                   HostFcntl fd0 F_SETFL (O_NDELAY hc) # hostcalls m2 \<rparr>
                       else m2)
             in if (cloexec \<or> ndelay) \<and> \<not> fcntl_ok h then Aborts
                else
                  (case AddFd (calloc_first h) (fds m3) fd0 (O_RDONLY hc OR oflags2) of
                     (None, _, _) \<Rightarrow> Aborts
                   | (Some _, l1, _) \<Rightarrow>
                      (case AddFd (calloc_second h) l1 fd1 (O_WRONLY hc OR oflags2) of
                         (None, _, _) \<Rightarrow> Aborts
                       | (Some _, l2, _) \<Rightarrow>
                          (let m4 = m3 \<lparr> fds := l2 \<rparr>;
                               fds_linux = Write32 (word_of_int fd0) @ Write32 (word_of_int fd1)
                           in case CopyToUserWrite m4 pipefds_addr fds_linux of
                                (rc, m5) \<Rightarrow> if rc \<noteq> 0 then Aborts else Returns 0 None m5))))))"

text \<open>The host flags the two descriptors get for the guest's \<open>flags\<close>.\<close>

definition pipe_oflags :: "HostConsts \<Rightarrow> int \<Rightarrow> int" where
  "pipe_oflags hc flags =
     (if flags AND O_CLOEXEC_LINUX \<noteq> 0 then O_CLOEXEC hc else 0) OR
     (if flags AND O_NDELAY_LINUX \<noteq> 0 then O_NDELAY hc else 0)"



text \<open>A host, its answers and a machine on which the claims are evaluated.\<close>

definition host0 :: HostConsts where
  "host0 = \<lparr> O_RDONLY = 0, O_WRONLY = 1, O_CLOEXEC = 0x80000, O_NDELAY = 0x800,
             FD_CLOEXEC = 1 \<rparr>"

definition pipehost0 :: PipeHost where
  "pipehost0 = \<lparr> pipe_result = Inr (3, 4), fcntl_ok = True, calloc_first = True,
                 calloc_second = True \<rparr>"

definition pipemachine0 :: PipeMachine where
  "pipemachine0 = \<lparr> fds = [], gbytes = (\<lambda>_. 0), gwritable = (\<lambda>a. 4096 \<le> a \<and> a < 8192),
                    hostcalls = [] \<rparr>"

section \<open>Signal delivery (\<open>DeliverSignal\<close>, \<open>SigRestore\<close>, \<open>ConsumeSignal\<close>)\<close>

text \<open>
  Signal numbers, handler values and flag bits of the Linux x86-64 ABI
  (\<open>blink/linux.h\<close> is not among the sources), and the red zone of the spec.
\<close>

definition SIGILL_LINUX :: int where "SIGILL_LINUX = 4"
definition SIGFPE_LINUX :: int where "SIGFPE_LINUX = 8"
definition SIGSEGV_LINUX :: int where "SIGSEGV_LINUX = 11"
definition SIGCHLD_LINUX :: int where "SIGCHLD_LINUX = 17"
definition SIGCONT_LINUX :: int where "SIGCONT_LINUX = 18"
definition SIGURG_LINUX :: int where "SIGURG_LINUX = 23"
definition SIGWINCH_LINUX :: int where "SIGWINCH_LINUX = 28"

definition SIG_DFL_LINUX :: u64 where "SIG_DFL_LINUX = 0"
definition SIG_IGN_LINUX :: u64 where "SIG_IGN_LINUX = 1"

definition SA_ONSTACK_LINUX :: u64 where "SA_ONSTACK_LINUX = 0x08000000"
definition SA_RESTART_LINUX :: u64 where "SA_RESTART_LINUX = 0x10000000"
definition SA_NODEFER_LINUX :: u64 where "SA_NODEFER_LINUX = 0x40000000"

definition SS_DISABLE_LINUX :: u32 where "SS_DISABLE_LINUX = 2"
definition SS_AUTODISARM_LINUX :: u32 where "SS_AUTODISARM_LINUX = 0x80000000"

definition kRedzoneSize :: u64 where "kRedzoneSize = 128"

definition IsSignalIgnoredByDefault :: "int \<Rightarrow> bool" where
  "IsSignalIgnoredByDefault sig =
     (sig = SIGURG_LINUX \<or> sig = SIGCONT_LINUX \<or> sig = SIGCHLD_LINUX \<or> sig = SIGWINCH_LINUX)"

definition IsSignalTooDangerousToIgnore :: "int \<Rightarrow> bool" where
  "IsSignalTooDangerousToIgnore sig =
     (sig = SIGFPE_LINUX \<or> sig = SIGILL_LINUX \<or> sig = SIGSEGV_LINUX)"

text \<open>
  The structures of the guest ABI are arrays of bytes that the code reads and writes
  with \<open>Read64\<close>/\<open>Write64\<close> (little-endian) or copies with \<open>memcpy\<close>; an 8-byte field
  is modelled by the 64-bit value it holds, a 2-byte field by a 16-bit value, and the
  128 and 256 bytes of the x87 stack and of the XMM registers by values of 1024 and
  2048 bits.

  \<open>struct Machine\<close> is not among the sources. Its fields are named as the code
  names them (\<open>m->flags\<close> is \<open>rflags\<close>, the \<open>mask\<close> of a handler is \<open>sa_mask\<close>, \<open>m->fpu.cw\<close> is \<open>fpu_cw\<close>,
  \<open>m->sigaltstack.sp\<close> is \<open>ss_sp\<close>, and so on), and each has the width with which
  \<open>DeliverSignal\<close> and \<open>SigRestore\<close> store and load it: the x87 control, status, tag
  and opcode words are the 16-bit registers of the architecture, which the frame holds
  in 2 bytes each.
\<close>

record sigaction_linux =
  handler :: u64
  sa_flags :: u64
  restorer :: u64
  sa_mask :: u64

record SignalFrame =
  ret :: u64
  si_signo :: u32
  si_code :: u32
  uc_sigmask :: u64
  uc_r8 :: u64
  uc_r9 :: u64
  uc_r10 :: u64
  uc_r11 :: u64
  uc_r12 :: u64
  uc_r13 :: u64
  uc_r14 :: u64
  uc_r15 :: u64
  uc_rdi :: u64
  uc_rsi :: u64
  uc_rbp :: u64
  uc_rbx :: u64
  uc_rdx :: u64
  uc_rax :: u64
  uc_rcx :: u64
  uc_rsp :: u64
  uc_rip :: u64
  uc_eflags :: u64
  uc_fpstate :: u64
  fp_cwd :: u16
  fp_swd :: u16
  fp_ftw :: u16
  fp_fop :: u16
  fp_rip :: u64
  fp_rdp :: u64
  fp_st :: "1024 word"
  fp_xmm :: "2048 word"

text \<open>\<open>memset(&sf, 0, sizeof(sf))\<close>.\<close>

definition zero_SignalFrame :: SignalFrame where
  "zero_SignalFrame =
     \<lparr> ret = 0, si_signo = 0, si_code = 0, uc_sigmask = 0,
       uc_r8 = 0, uc_r9 = 0, uc_r10 = 0, uc_r11 = 0, uc_r12 = 0, uc_r13 = 0, uc_r14 = 0,
       uc_r15 = 0, uc_rdi = 0, uc_rsi = 0, uc_rbp = 0, uc_rbx = 0, uc_rdx = 0, uc_rax = 0,
       uc_rcx = 0, uc_rsp = 0, uc_rip = 0, uc_eflags = 0, uc_fpstate = 0,
       fp_cwd = 0, fp_swd = 0, fp_ftw = 0, fp_fop = 0, fp_rip = 0, fp_rdp = 0,
       fp_st = 0, fp_xmm = 0 \<rparr>"

text \<open>
  \<open>sizeof(struct SignalFrame)\<close> and the offsets of its members are fixed by
  \<open>blink/linux.h\<close>; they are parameters. \<open>DeliverSignal\<close> compiles only if
  \<open>(sizeof(struct SignalFrame) & 15) == 8\<close> (its \<open>_Static_assert\<close>).
\<close>

record FrameLayout =
  sizeof_SignalFrame :: nat
  offsetof_si :: nat
  offsetof_uc :: nat
  offsetof_fp :: nat

definition static_asserts :: "FrameLayout \<Rightarrow> bool" where
  "static_asserts lay = (sizeof_SignalFrame lay mod 16 = 8)"

record SigSystem =
  hands :: "nat \<Rightarrow> sigaction_linux"

record Machine =
  system :: SigSystem
  metal :: bool
  restored :: bool
  signals :: u64
  sigmask :: u64
  ip :: u64
  rflags :: u64
  r8 :: u64
  r9 :: u64
  r10 :: u64
  r11 :: u64
  r12 :: u64
  r13 :: u64
  r14 :: u64
  r15 :: u64
  di :: u64
  si :: u64
  bp :: u64
  bx :: u64
  dx :: u64
  ax :: u64
  cx :: u64
  sp :: u64
  fpu_cw :: u16
  fpu_sw :: u16
  fpu_tw :: u16
  fpu_op :: u16
  fpu_ip :: u64
  fpu_dp :: u64
  fpu_st :: "1024 word"
  xmm :: "2048 word"
  ss_sp :: u64
  ss_flags :: u32
  ss_size :: u64
  gframes :: "u64 \<Rightarrow> SignalFrame option"
  gstack_ok :: "u64 \<Rightarrow> bool"

text \<open>
  Modelled from the spec: \<open>CopyToUserWrite\<close> and \<open>CopyFromUserRead\<close> are not among
  the sources. The spec has the frame copied to guest memory, a failure ending in a
  terminal \<open>SIGSEGV\<close>, and \<open>SigRestore\<close> read the frame back. Guest memory holds the
  frames that were copied out, by the guest address of their first byte
  (\<open>gframes\<close>); \<open>gstack_ok a\<close> says that a frame may be written at \<open>a\<close>.
\<close>

definition CopyToUserWrite_frame :: "Machine \<Rightarrow> u64 \<Rightarrow> SignalFrame \<Rightarrow> Machine option" where
  "CopyToUserWrite_frame m addr sf =
     (if gstack_ok m addr then Some (m \<lparr> gframes := (gframes m)(addr := Some sf) \<rparr>) else None)"

definition CopyFromUserRead_frame :: "Machine \<Rightarrow> SignalFrame \<Rightarrow> u64 \<Rightarrow> SignalFrame" where
  "CopyFromUserRead_frame m sf addr = (case gframes m addr of Some f \<Rightarrow> f | None \<Rightarrow> sf)"

text \<open>
  How \<open>DeliverSignal\<close> ends: it returns, or \<open>TerminateSignal\<close> ends the process with
  the signal given, or the \<open>unassert\<close> on the stack pointer fails.
\<close>

datatype delivery = Delivered Machine | Terminated int | Unasserted

text \<open>
  \<open>DeliverSignal(m, sig, code)\<close>. Abandoning a JIT path and logging touch no field of
  the model. \<open>ROUNDDOWN(sp, 16)\<close> clears the low four bits.
\<close>

definition DeliverSignal :: "FrameLayout \<Rightarrow> Machine \<Rightarrow> int \<Rightarrow> int \<Rightarrow> delivery" where
  "DeliverSignal lay m sig code =
     (let hand = hands (system m) (nat (sig - 1));
          sf = zero_SignalFrame
                 \<lparr> si_signo := word_of_int sig, si_code := word_of_int code,
                   uc_sigmask := sigmask m,
                   uc_r8 := r8 m, uc_r9 := r9 m, uc_r10 := r10 m, uc_r11 := r11 m,
                   uc_r12 := r12 m, uc_r13 := r13 m, uc_r14 := r14 m, uc_r15 := r15 m,
                   uc_rdi := di m, uc_rsi := si m, uc_rbp := bp m, uc_rbx := bx m,
                   uc_rdx := dx m, uc_rax := ax m, uc_rcx := cx m, uc_rsp := sp m,
                   uc_rip := ip m, uc_eflags := rflags m,
                   fp_cwd := fpu_cw m, fp_swd := fpu_sw m, fp_ftw := fpu_tw m,
                   fp_fop := fpu_op m, fp_rip := fpu_ip m, fp_rdp := fpu_dp m,
                   fp_st := fpu_st m, fp_xmm := xmm m \<rparr>;
          m1 = m \<lparr> sigmask := sigmask m OR sa_mask hand \<rparr>;
          m2 = (if NOT (sa_flags hand) AND SA_NODEFER_LINUX \<noteq> 0
                then m1 \<lparr> sigmask := sigmask m1 OR push_bit (nat (sig - 1)) 1 \<rparr>
                else m1);
          onstack = (sa_flags hand AND SA_ONSTACK_LINUX \<noteq> 0 \<and>
                     \<not> (ss_flags m2 AND SS_DISABLE_LINUX \<noteq> 0));
          sp1 = (if onstack then ss_sp m2 + ss_size m2 else sp m2 - kRedzoneSize);
          m3 = (if onstack \<and> ss_flags m2 AND SS_AUTODISARM_LINUX \<noteq> 0
                then m2 \<lparr> ss_flags := ss_flags m2 AND NOT SS_AUTODISARM_LINUX \<rparr>
                else m2);
          sp2 = sp1 AND NOT 15;
          sp3 = sp2 - of_nat (sizeof_SignalFrame lay)
      in if sp3 AND 15 \<noteq> 8 then Unasserted
         else
           (let sf1 = sf \<lparr> ret := restorer hand,
                          uc_fpstate := sp3 + of_nat (offsetof_fp lay) \<rparr>
            in case CopyToUserWrite_frame m3 sp3 sf1 of
                 None \<Rightarrow> Terminated SIGSEGV_LINUX
               | Some m4 \<Rightarrow>
                   Delivered (m4 \<lparr> sp := sp3, di := word_of_int sig,
                                   si := sp3 + of_nat (offsetof_si lay),
                                   dx := sp3 + of_nat (offsetof_uc lay),
                                   ip := handler hand \<rparr>)))"

text \<open>
  \<open>SigRestore(m)\<close>. The first argument is what the local \<open>sf\<close> holds before the copy
  (it is not initialised, and the result of \<open>CopyFromUserRead\<close> is not looked at).
\<close>

definition SigRestore :: "SignalFrame \<Rightarrow> Machine \<Rightarrow> Machine" where
  "SigRestore sf0 m =
     (let sf = CopyFromUserRead_frame m sf0 (sp m - 8)
      in m \<lparr> ip := uc_rip sf, rflags := uc_eflags sf, sigmask := uc_sigmask sf,
             r8 := uc_r8 sf, r9 := uc_r9 sf, r10 := uc_r10 sf, r11 := uc_r11 sf,
             r12 := uc_r12 sf, r13 := uc_r13 sf, r14 := uc_r14 sf, r15 := uc_r15 sf,
             di := uc_rdi sf, si := uc_rsi sf, bp := uc_rbp sf, bx := uc_rbx sf,
             dx := uc_rdx sf, ax := uc_rax sf, cx := uc_rcx sf, sp := uc_rsp sf,
             fpu_cw := fp_cwd sf, fpu_sw := fp_swd sf, fpu_tw := fp_ftw sf,
             fpu_op := fp_fop sf, fpu_ip := fp_rip sf, fpu_dp := fp_rdp sf,
             fpu_st := fp_st sf, xmm := fp_xmm sf,
             restored := True \<rparr>)"

text \<open>
  \<open>bsr\<close> of \<open>blink/bitscan.h\<close> (not among the sources) is the bit scan of x86: the
  index of the highest bit that is set. \<open>bsr_from n x\<close> looks at the bits \<open>n\<close> down to 0.
\<close>

fun bsr_from :: "nat \<Rightarrow> u64 \<Rightarrow> nat" where
  "bsr_from 0 x = 0"
| "bsr_from (Suc n) x = (if bit x (Suc n) then Suc n else bsr_from n x)"

definition bsr :: "u64 \<Rightarrow> nat" where
  "bsr x = bsr_from 63 x"

text \<open>
  How \<open>ConsumeSignal\<close> ends: with its return value, what \<open>delivered\<close> and \<open>restart\<close>
  point to, and the machine; or inside \<open>DeliverSignal\<close>. The two pointers may be null:
  \<open>None\<close> is a null pointer, \<open>Some v\<close> a pointer to a variable that holds \<open>v\<close>. The
  functions take what the caller's variables hold before the call, and \<open>Consumed\<close> has
  what they hold after it.
\<close>

datatype consumed =
  Consumed int "int option" "bool option" Machine | ConsumeTerminated int | ConsumeUnasserted

text \<open>
  The loop of \<open>ConsumeSignalImpl\<close>:
  \<^verbatim>\<open>for (signals = m->signals; signals; signals &= ~(1ull << (sig - 1)))\<close>.
  The last argument is the local \<open>signals\<close>; \<open>d\<close> and \<open>r\<close> are \<open>delivered\<close> and
  \<open>restart\<close>, which the loop writes through (when they are not null) only where a
  handler is called.
\<close>

function ConsumeSignalLoop ::
  "FrameLayout \<Rightarrow> Machine \<Rightarrow> int option \<Rightarrow> bool option \<Rightarrow> u64 \<Rightarrow> consumed" where
  "ConsumeSignalLoop lay m d r pending =
     (if pending = 0 then Consumed 0 d r m
      else
        (let sig = int (bsr pending) + 1 in
         if NOT (sigmask m) AND push_bit (nat (sig - 1)) 1 \<noteq> 0 then
           (let m1 = m \<lparr> signals := signals m AND NOT (push_bit (nat (sig - 1)) 1) \<rparr>;
                hdl = handler (hands (system m1) (nat (sig - 1)))
            in if hdl = SIG_DFL_LINUX then
                 (if IsSignalIgnoredByDefault sig then Consumed 0 d r m1
                  else Consumed sig d r m1)
               else if hdl = SIG_IGN_LINUX then
                 (if \<not> IsSignalTooDangerousToIgnore sig then Consumed 0 d r m1
                  else Consumed sig d r m1)
               else
                 (case DeliverSignal lay m1 sig 0 of
                    Delivered m2 \<Rightarrow>
                      Consumed 0 (map_option (\<lambda>_. sig) d)
                        (map_option
                           (\<lambda>_. sa_flags (hands (system m1) (nat (sig - 1))) AND
                                 SA_RESTART_LINUX \<noteq> 0) r)
                        m2
                  | Terminated s \<Rightarrow> ConsumeTerminated s
                  | Unasserted \<Rightarrow> ConsumeUnasserted))
         else if IsSignalTooDangerousToIgnore sig then Consumed sig d r m
         else ConsumeSignalLoop lay m d r (pending AND NOT (push_bit (nat (sig - 1)) 1))))"
  by pat_completeness auto
termination
proof (relation "measure (\<lambda>(lay, m, d, r, pending). unat pending)")
  show "wf (measure (\<lambda>(lay, m, d, r, pending). unat pending))"
    by simp
next
  fix lay :: FrameLayout and m :: Machine and d :: "int option" and r :: "bool option"
    and pending :: u64 and sig :: int
  assume nz: "pending \<noteq> 0" and sig: "sig = int (bsr pending) + 1"
  have top: "bit x (bsr_from n x)" if "\<exists>k\<le>n. bit x k" for n and x :: u64
    using that
  proof (induction n)
    case 0
    then show ?case by simp
  next
    case (Suc n)
    then show ?case by (auto simp: le_Suc_eq)
  qed
  from nz obtain k where k: "bit pending k"
    by (auto simp: bit_eq_iff)
  then have "k < 64"
    by (auto dest: bit_imp_le_length)
  with k have "\<exists>k\<le>63. bit pending k"
    by (intro exI[of _ k]) simp
  then have b: "bit pending (bsr pending)"
    unfolding bsr_def by (rule top)
  have eq: "pending AND NOT (push_bit (bsr pending) 1) = unset_bit (bsr pending) pending"
    by (simp add: unset_bit_eq_and_not)
  have "unset_bit (bsr pending) pending \<noteq> pending"
    using b by (metis bit_unset_bit_iff)
  moreover have "unset_bit (bsr pending) pending \<le> pending"
    by (simp add: eq [symmetric] word_and_le2)
  ultimately have "unset_bit (bsr pending) pending < pending"
    by simp
  then have "unat (pending AND NOT (push_bit (bsr pending) 1)) < unat pending"
    unfolding eq by (simp add: word_less_nat_alt)
  then show "((lay, m, d, r, pending AND NOT (push_bit (nat (sig - 1)) 1)),
              (lay, m, d, r, pending))
             \<in> measure (\<lambda>(lay, m, d, r, pending). unat pending)"
    using sig by simp
qed

declare ConsumeSignalLoop.simps [simp del]

text \<open>
  \<open>ConsumeSignalImpl(m, delivered, restart)\<close> begins with
  \<^verbatim>\<open>if (delivered) *delivered = 0; if (restart) *restart = true;\<close>
\<close>

definition ConsumeSignalImpl ::
  "FrameLayout \<Rightarrow> Machine \<Rightarrow> int option \<Rightarrow> bool option \<Rightarrow> consumed" where
  "ConsumeSignalImpl lay m d r =
     ConsumeSignalLoop lay m (map_option (\<lambda>_. 0) d) (map_option (\<lambda>_. True) r) (signals m)"

text \<open>
  \<open>ConsumeSignal(m, delivered, restart)\<close>; the lock holds no data. In metal mode it
  returns before \<open>ConsumeSignalImpl\<close> is called, so that nothing is written through
  \<open>delivered\<close> and \<open>restart\<close>.
\<close>

definition ConsumeSignal ::
  "FrameLayout \<Rightarrow> Machine \<Rightarrow> int option \<Rightarrow> bool option \<Rightarrow> consumed" where
  "ConsumeSignal lay m d r = (if metal m then Consumed 0 d r m else ConsumeSignalImpl lay m d r)"

text \<open>The guest registers that a signal frame saves.\<close>

definition registers ::
  "Machine \<Rightarrow> (u64 \<times> u64) \<times> u64 list \<times> (u16 \<times> u16 \<times> u16 \<times> u16 \<times> u64 \<times> u64 \<times> 1024 word) \<times> 2048 word" where
  "registers m =
     ((ip m, rflags m),
      [r8 m, r9 m, r10 m, r11 m, r12 m, r13 m, r14 m, r15 m,
       di m, si m, bp m, bx m, dx m, ax m, cx m, sp m],
      (fpu_cw m, fpu_sw m, fpu_tw m, fpu_op m, fpu_ip m, fpu_dp m, fpu_st m),
      xmm m)"

text \<open>
  A layout (128 bytes of \<open>siginfo\<close>, 304 of \<open>ucontext\<close>, 512 of \<open>fpstate\<close> after the
  8 bytes of \<open>ret\<close>) and machines on which the claims are evaluated: every signal has
  the default action in \<open>machine0\<close>, which has \<open>SIGSEGV\<close> pending and writable guest
  memory below \<open>0x8000\<close>; \<open>machine1\<close> has a handler for signal 10 at \<open>0x401000\<close>.
\<close>

definition layout0 :: FrameLayout where
  "layout0 = \<lparr> sizeof_SignalFrame = 952, offsetof_si = 8, offsetof_uc = 136,
                offsetof_fp = 440 \<rparr>"

definition machine0 :: Machine where
  "machine0 =
     \<lparr> system = \<lparr> hands = (\<lambda>_. \<lparr> handler = 0, sa_flags = 0, restorer = 0, sa_mask = 0 \<rparr>) \<rparr>,
       metal = False, restored = False, signals = 0x400, sigmask = 0, ip = 0x400000,
       rflags = 0x202,
       r8 = 8, r9 = 9, r10 = 10, r11 = 11, r12 = 12, r13 = 13, r14 = 14, r15 = 15,
       di = 1, si = 2, bp = 3, bx = 4, dx = 5, ax = 6, cx = 7, sp = 0x7ff0,
       fpu_cw = 0x37f, fpu_sw = 0, fpu_tw = 0xffff, fpu_op = 0, fpu_ip = 0, fpu_dp = 0,
       fpu_st = 0, xmm = 0, ss_sp = 0, ss_flags = 2, ss_size = 0,
       gframes = (\<lambda>_. None), gstack_ok = (\<lambda>a. a < 0x8000) \<rparr>"

definition machine1 :: Machine where
  "machine1 =
     machine0 \<lparr> system := \<lparr> hands = (\<lambda>i. \<lparr> handler = (if i = 9 then 0x401000 else 0),
                                           sa_flags = 0, restorer = 0x402000, sa_mask = 0 \<rparr>) \<rparr>,
                signals := 0x200 \<rparr>"

text \<open>What one round of the loop does with the signal it looks at.\<close>

definition consume_step ::
  "FrameLayout \<Rightarrow> Machine \<Rightarrow> int option \<Rightarrow> bool option \<Rightarrow> int \<Rightarrow> consumed" where
  "consume_step lay m d r sig =
     (if \<not> bit (sigmask m) (nat (sig - 1)) then
        (let m1 = m \<lparr> signals := signals m AND NOT (push_bit (nat (sig - 1)) 1) \<rparr>;
             hdl = handler (hands (system m) (nat (sig - 1)))
         in if hdl = SIG_DFL_LINUX then
              Consumed (if IsSignalIgnoredByDefault sig then 0 else sig) d r m1
            else if hdl = SIG_IGN_LINUX then
              Consumed (if IsSignalTooDangerousToIgnore sig then sig else 0) d r m1
            else
              (case DeliverSignal lay m1 sig 0 of
                 Delivered m2 \<Rightarrow>
                   Consumed 0 (map_option (\<lambda>_. sig) d)
                     (map_option
                        (\<lambda>_. sa_flags (hands (system m1) (nat (sig - 1))) AND
                              SA_RESTART_LINUX \<noteq> 0) r)
                     m2
               | Terminated s \<Rightarrow> ConsumeTerminated s
               | Unasserted \<Rightarrow> ConsumeUnasserted))
      else Consumed sig d r m)"

text \<open>The stack pointer that \<open>DeliverSignal\<close> computes for the frame.\<close>

definition frame_sp :: "FrameLayout \<Rightarrow> Machine \<Rightarrow> int \<Rightarrow> u64" where
  "frame_sp lay m sig =
     (let hand = hands (system m) (nat (sig - 1)) in
      ((if sa_flags hand AND SA_ONSTACK_LINUX \<noteq> 0 \<and> \<not> (ss_flags m AND SS_DISABLE_LINUX \<noteq> 0)
        then ss_sp m + ss_size m else sp m - kRedzoneSize) AND NOT 15)
      - of_nat (sizeof_SignalFrame lay))"

section \<open>Guest memory: the page pool and the page table\<close>

text \<open>
  The attribute bits of a page-table entry. \<open>blink/pml4t.h\<close> is not among the
  sources: \<open>PAGE_V\<close>, \<open>PAGE_RW\<close>, \<open>PAGE_U\<close>, \<open>PAGE_XD\<close> and the address mask
  \<open>PAGE_TA\<close> are those of the x86-64 page-table entry, and the five bits that the
  emulator keeps for itself are five of the bits that x86-64 leaves to software.
  The claims use only that the bits are distinct and lie outside \<open>PAGE_TA\<close>.
\<close>

definition PAGE_V :: u64 where "PAGE_V = 0x1"
definition PAGE_RW :: u64 where "PAGE_RW = 0x2"
definition PAGE_U :: u64 where "PAGE_U = 0x4"
definition PAGE_RSRV :: u64 where "PAGE_RSRV = 0x200"
definition PAGE_HOST :: u64 where "PAGE_HOST = 0x400"
definition PAGE_MAP :: u64 where "PAGE_MAP = 0x800"
definition PAGE_EOF :: u64 where "PAGE_EOF = 0x0010000000000000"
definition PAGE_MUG :: u64 where "PAGE_MUG = 0x0020000000000000"
definition PAGE_XD :: u64 where "PAGE_XD = 0x8000000000000000"
definition PAGE_TA :: u64 where "PAGE_TA = 0x00007ffffffff000"

definition PROT_READ :: int where "PROT_READ = 1"
definition PROT_WRITE :: int where "PROT_WRITE = 2"
definition PROT_EXEC :: int where "PROT_EXEC = 4"

text \<open>
  What the build and the host fix: whether guest addresses are mapped linearly
  (\<open>HasLinearMapping\<close>, a macro that does not look at its argument: \<open>RemoveVirtual\<close>
  and \<open>ReserveVirtual\<close> pass it a name that is not in scope), the host's page size
  (\<open>GetSystemPageSize()\<close>), and the constants \<open>kSkew\<close>, \<open>kPreciousStart\<close>,
  \<open>kPreciousEnd\<close> and \<open>kRealSize\<close>.
\<close>

record Config =
  linear :: bool
  pagesize :: int
  kSkew :: int
  kPreciousStart :: int
  kPreciousEnd :: int
  kRealSize :: int

text \<open>
  What the host answers. Every call to the host or to \<open>malloc\<close> takes the next tick
  of the state; the answer to the call made at tick \<open>t\<close> is the value at \<open>t\<close> of:
  \<open>AllocateBig_result\<close> (the pointer that \<open>AllocateBig\<close> returns, \<open>None\<close> for null:
  \<open>AllocateBig\<close> asks the host's \<open>mmap\<close> for a region at its cursor until the host
  grants one or the window is used up), \<open>malloc_ok\<close> (\<open>malloc\<close> and \<open>realloc\<close>
  return a pointer), \<open>Munmap_result\<close> and \<open>Mprotect_result\<close> (0 on success), and
  \<open>Mmap_result\<close> for the \<open>mmap\<close> of a linear mapping.
\<close>

datatype mmap_result = MmapAt int | MmapENOMEM | MmapFailed

record Host =
  AllocateBig_result :: "nat \<Rightarrow> u64 option"
  malloc_ok :: "nat \<Rightarrow> bool"
  Munmap_result :: "nat \<Rightarrow> int"
  Mprotect_result :: "nat \<Rightarrow> int"
  Mmap_result :: "nat \<Rightarrow> mmap_result"

datatype hostop =
    HostMunmap int int
  | HostMmap int int int bool int int
  | HostMprotect int int int

text \<open>
  \<open>struct System\<close> with the global \<open>g_allocator\<close>. Host memory is kept by page:
  \<open>mem s p i\<close> is the 64-bit little-endian value at byte offset \<open>8 * i\<close> of the host
  page at address \<open>p\<close>, for \<open>i\<close> below 512; a page holds only zero bytes when its 512
  values are zero. \<open>pages\<close> is the free list \<open>g_allocator.pages\<close>, first element
  first. \<open>invalidated\<close> is the flag that \<open>InvalidateSystem(s, true, false)\<close> sets on
  every machine; \<open>hostlog\<close> lists the host calls made, newest first.
\<close>

record System =
  cr3 :: u64
  mem :: "u64 \<Rightarrow> nat \<Rightarrow> u64"
  vss :: int
  rss :: int
  memchurn :: int
  memstat_allocated :: int
  memstat_committed :: int
  memstat_reserved :: int
  memstat_freed :: int
  memstat_reclaimed :: int
  memstat_pagetables :: int
  pages :: "u64 list"
  invalidated :: bool
  hostlog :: "hostop list"
  tick :: nat

subsection \<open>The page pool\<close>

text \<open>\<open>FillPage(p, c)\<close> for \<open>c = 0\<close>, that is \<open>ClearPage(p)\<close>: \<open>memset(p, 0, 4096)\<close>.\<close>

definition ClearPage :: "System \<Rightarrow> u64 \<Rightarrow> System" where
  "ClearPage s p = s \<lparr> mem := (mem s)(p := (\<lambda>_. 0)) \<rparr>"

text \<open>
  \<open>FreeAnonymousPage(s, page)\<close>: a new \<open>HostPage\<close> (the \<open>unassert\<close> ends the process
  when \<open>malloc\<close> fails, which is \<open>None\<close>) is linked in front of the free list.
\<close>

definition FreeAnonymousPage :: "Host \<Rightarrow> System \<Rightarrow> u64 \<Rightarrow> System option" where
  "FreeAnonymousPage h s page =
     (if malloc_ok h (tick s)
      then Some (s \<lparr> pages := page # pages s, tick := Suc (tick s) \<rparr>)
      else None)"

text \<open>
  \<open>AllocatePage(s)\<close>: the entry returned (\<open>-1\<close> when \<open>AllocateBig\<close> fails) and the
  state, or \<open>None\<close> when an \<open>unassert\<close> fails. With an empty free list it takes 64
  pages from \<open>AllocateBig\<close>, keeps the first and links the others, the last one first.
\<close>

definition AllocatePage :: "Host \<Rightarrow> System \<Rightarrow> (u64 \<times> System) option" where
  "AllocatePage h s =
     (let finished = (\<lambda>page s1.
            if page AND NOT PAGE_TA \<noteq> 0 then None
            else Some (page OR PAGE_HOST OR PAGE_U OR PAGE_RW OR PAGE_V,
                       s1 \<lparr> rss := rss s1 + 1 \<rparr>))
      in case pages s of
           page # rest \<Rightarrow>
             finished page
               (s \<lparr> pages := rest,
                    memstat_freed := memstat_freed s - 1,
                    memstat_committed := memstat_committed s + 1,
                    memstat_reclaimed := memstat_reclaimed s + 1 \<rparr>)
         | [] \<Rightarrow>
             (case AllocateBig_result h (tick s) of
                None \<Rightarrow> Some (- 1, s \<lparr> tick := Suc (tick s) \<rparr>)
              | Some page \<Rightarrow>
                  if \<not> (\<forall>k \<in> set [1..<64]. malloc_ok h (tick s + k)) then None
                  else
                    finished page
                      (s \<lparr> memstat_allocated := memstat_allocated s + 64,
                           memstat_committed := memstat_committed s + 1,
                           memstat_freed := memstat_freed s + 63,
                           pages := map (\<lambda>i. page + of_nat i * 4096) [1..<64] @ pages s,
                           tick := tick s + 64 \<rparr>)))"

definition AllocatePageTable :: "Host \<Rightarrow> System \<Rightarrow> (u64 \<times> System) option" where
  "AllocatePageTable h s =
     (case AllocatePage h s of
        None \<Rightarrow> None
      | Some (res, s1) \<Rightarrow>
          if res \<noteq> - 1
          then Some (res AND NOT PAGE_U,
                     s1 \<lparr> memstat_pagetables := memstat_pagetables s1 + 1 \<rparr>)
          else Some (res, s1))"

subsection \<open>Intervals\<close>

text \<open>
  Guest addresses and sizes are \<open>i64\<close> in the code and integers here.
  \<open>OverlapsPrecious\<close> computes with \<open>uint64_t\<close>: its four bounds are taken modulo
  \<open>2 ^ 64\<close>.
\<close>

definition OverlapsPrecious :: "Config \<Rightarrow> int \<Rightarrow> int \<Rightarrow> bool" where
  "OverlapsPrecious cfg virt size' =
     (if size' \<le> 0 then False
      else
        (let BegA = (virt + kSkew cfg) mod 2 ^ 64;
             EndA = (virt + kSkew cfg + (size' - 1)) mod 2 ^ 64;
             BegB = kPreciousStart cfg mod 2 ^ 64;
             EndB = (kPreciousEnd cfg - 1) mod 2 ^ 64
         in max BegA BegB < min EndA EndB))"

definition IsValidAddrSize :: "int \<Rightarrow> int \<Rightarrow> bool" where
  "IsValidAddrSize virt size' =
     (size' > 0 \<and>
      virt mod 4096 = 0 \<and>
      virt \<ge> - 0x800000000000 \<and>
      virt < 0x800000000000 \<and>
      size' \<le> 0x1000000000000 \<and>
      virt + size' \<le> 0x800000000000)"

subsection \<open>Walking the page table\<close>

text \<open>
  Modelled from the spec: \<open>GetPageAddress\<close> is not among the sources. The spec has an
  entry hold the host address of the page or table it stands for under the mask
  \<open>PAGE_TA\<close>, and \<open>cr3\<close> hold the host address of the top-level table.
\<close>

definition GetPageAddress :: "u64 \<Rightarrow> u64" where
  "GetPageAddress pt = pt AND PAGE_TA"

text \<open>
  \<open>(virt >> level) & 511\<close>; the shift of a negative \<open>i64\<close> keeps the sign. A pointer
  \<open>mi\<close> into a table is the table's page and the index of the entry.
\<close>

definition pml4_index :: "int \<Rightarrow> nat \<Rightarrow> nat" where
  "pml4_index virt level = nat ((virt div 2 ^ level) mod 512)"

type_synonym slot = "u64 \<times> nat"

definition Load64 :: "System \<Rightarrow> slot \<Rightarrow> u64" where
  "Load64 s mi = mem s (fst mi) (snd mi)"

definition Store64 :: "System \<Rightarrow> slot \<Rightarrow> u64 \<Rightarrow> System" where
  "Store64 s mi v = s \<lparr> mem := (mem s)(fst mi := (mem s (fst mi))(snd mi := v)) \<rparr>"

text \<open>
  The walk that \<open>RemoveVirtual\<close>, \<open>IsFullyUnmapped\<close> and \<open>FindVirtual\<close> share:
  \<^verbatim>\<open>for (pt = s->cr3, i = 39;; i -= 9) {
    mi = GetPageAddress(s, pt) + ((virt >> i) & 511) * 8;
    pt = Load64(mi);
    if (!(pt & PAGE_V)) break; else if (i == 12) break; }\<close>
  \<open>walk s n pt virt\<close> runs it from level \<open>12 + 9 * n\<close> and gives \<open>mi\<close>, \<open>pt\<close> and
  \<open>i\<close> at the \<open>break\<close>.
\<close>

fun walk :: "System \<Rightarrow> nat \<Rightarrow> u64 \<Rightarrow> int \<Rightarrow> slot \<times> u64 \<times> nat" where
  "walk s 0 pt virt =
     (let mi = (GetPageAddress pt, pml4_index virt 12) in (mi, Load64 s mi, 12))"
| "walk s (Suc n) pt virt =
     (let mi = (GetPageAddress pt, pml4_index virt (21 + 9 * n));
          pt1 = Load64 s mi
      in if pt1 AND PAGE_V = 0 then (mi, pt1, 21 + 9 * n) else walk s n pt1 virt)"

definition walk_from_cr3 :: "System \<Rightarrow> int \<Rightarrow> slot \<times> u64 \<times> nat" where
  "walk_from_cr3 s virt = walk s 3 (cr3 s) virt"

text \<open>
  The walk of \<open>IsFullyMapped\<close>, \<open>ProtectVirtual\<close> and \<open>ReserveVirtual\<close> through the
  levels above the leaves:
  \<^verbatim>\<open>for (pt = s->cr3, level = 39; level >= 12; level -= 9) {
    ti = (virt >> level) & 511;
    mi = GetPageAddress(s, pt) + ti * 8;
    pt = Load64(mi);
    if (level > 12) { if (!(pt & PAGE_V)) return false; continue; } ... }\<close>
  \<open>descend s n pt virt\<close> runs it from level \<open>12 + 9 * n\<close> down to level 21 and gives
  \<open>mi\<close> at level 12, or \<open>None\<close> where an entry above is not valid.
\<close>

fun descend :: "System \<Rightarrow> nat \<Rightarrow> u64 \<Rightarrow> int \<Rightarrow> slot option" where
  "descend s 0 pt virt = Some (GetPageAddress pt, pml4_index virt 12)"
| "descend s (Suc n) pt virt =
     (let mi = (GetPageAddress pt, pml4_index virt (21 + 9 * n));
          pt1 = Load64 s mi
      in if pt1 AND PAGE_V = 0 then None else descend s n pt1 virt)"

subsection \<open>\<open>IsFullyMapped\<close> and \<open>IsFullyUnmapped\<close>\<close>

text \<open>
  \<open>IsFullyMapped_crawl\<close> is the body of the outer \<open>for (end = virt + size;;)\<close>,
  \<open>IsFullyMapped_leaves\<close> the inner \<open>for (;;)\<close> over the entries of one leaf table,
  entered with \<open>mi\<close> at the entry of \<open>virt\<close>.
\<close>

function IsFullyMapped_crawl :: "System \<Rightarrow> int \<Rightarrow> int \<Rightarrow> bool"
  and IsFullyMapped_leaves :: "System \<Rightarrow> slot \<Rightarrow> int \<Rightarrow> int \<Rightarrow> bool" where
  "IsFullyMapped_crawl s virt end' =
     (case descend s 3 (cr3 s) virt of
        None \<Rightarrow> False
      | Some mi \<Rightarrow> IsFullyMapped_leaves s mi virt end')"
| "IsFullyMapped_leaves s mi virt end' =
     (if Load64 s mi AND PAGE_V = 0 then False
      else if virt + 4096 \<ge> end' then True
      else if Suc (snd mi) = 512 then IsFullyMapped_crawl s (virt + 4096) end'
      else IsFullyMapped_leaves s (fst mi, Suc (snd mi)) (virt + 4096) end')"
  by pat_completeness auto
termination
  by (relation "measure (\<lambda>x. case x of
          Inl (s, virt, end') \<Rightarrow> 2 * nat (end' - virt) + 1
        | Inr (s, mi, virt, end') \<Rightarrow> 2 * nat (end' - virt))")
     auto

declare IsFullyMapped_crawl.simps [simp del] IsFullyMapped_leaves.simps [simp del]

definition IsFullyMapped :: "System \<Rightarrow> int \<Rightarrow> int \<Rightarrow> bool" where
  "IsFullyMapped s virt size' = IsFullyMapped_crawl s virt (virt + size')"

text \<open>
  The loop of \<open>IsFullyUnmapped\<close>:
  \<^verbatim>\<open>for (end = virt + size; virt < end; virt += 1ull << i)\<close>.
\<close>

function IsFullyUnmapped_loop :: "System \<Rightarrow> int \<Rightarrow> int \<Rightarrow> bool" where
  "IsFullyUnmapped_loop s virt end' =
     (if virt < end' then
        (case walk_from_cr3 s virt of
           (mi, pt, i) \<Rightarrow>
             if pt AND PAGE_V = 0 then IsFullyUnmapped_loop s (virt + 2 ^ i) end'
             else False)
      else True)"
  by pat_completeness auto
termination
  by (relation "measure (\<lambda>(s, virt, end'). nat (end' - virt))") auto

declare IsFullyUnmapped_loop.simps [simp del]

definition IsFullyUnmapped :: "Config \<Rightarrow> System \<Rightarrow> int \<Rightarrow> int \<Rightarrow> bool" where
  "IsFullyUnmapped cfg s virt size' =
     (if linear cfg \<and> OverlapsPrecious cfg virt size' then False
      else IsFullyUnmapped_loop s virt (virt + size'))"

subsection \<open>\<open>FreePage\<close>, \<open>RemoveVirtual\<close> and \<open>FreeVirtual\<close>\<close>

definition TallyFreePage :: "System \<Rightarrow> u64 \<Rightarrow> System" where
  "TallyFreePage s entry =
     (if entry AND PAGE_RSRV \<noteq> 0
      then s \<lparr> memstat_reserved := memstat_reserved s - 1 \<rparr>
      else s \<lparr> memstat_committed := memstat_committed s - 1 \<rparr>)"

text \<open>
  What \<open>RemoveVirtual\<close> hands back through its pointers: the contiguous ranges (the
  newest first), \<open>*address_space_was_mutated\<close>, \<open>*vss_delta\<close> and \<open>*rss_delta\<close>.
\<close>

record RemoveAcc =
  ranges :: "(int \<times> int) list"
  mutated :: bool
  vss_delta :: int
  rss_delta :: int

text \<open>
  \<open>FreePage(s, entry, size, &mutated, &rss_delta)\<close>: the value returned with the state
  and the two counters, or \<open>None\<close> when an \<open>unassert\<close> fails. \<open>ROUNDDOWN(real,
  pagesize)\<close> takes \<open>real\<close> down to a multiple of the page size.
\<close>

definition FreePage ::
  "Config \<Rightarrow> Host \<Rightarrow> System \<Rightarrow> u64 \<Rightarrow> int \<Rightarrow> RemoveAcc \<Rightarrow> (bool \<times> System \<times> RemoveAcc) option" where
  "FreePage cfg h s entry size' acc =
     (if entry AND PAGE_V = 0 then None
      else if entry AND (PAGE_HOST OR PAGE_MAP OR PAGE_MUG) = PAGE_HOST then
        (if NOT entry AND PAGE_RSRV = 0 then None
         else
           (let s1 = s \<lparr> memstat_freed := memstat_freed s + 1,
                         memstat_committed := memstat_committed s - 1 \<rparr>;
                page = entry AND PAGE_TA
            in case FreeAnonymousPage h (ClearPage s1 page) page of
                 None \<Rightarrow> None
               | Some s2 \<Rightarrow>
                   Some (False, s2,
                         acc \<lparr> mutated := True, rss_delta := rss_delta acc - 1 \<rparr>)))
      else if entry AND (PAGE_HOST OR PAGE_MAP OR PAGE_MUG) =
              (PAGE_HOST OR PAGE_MAP OR PAGE_MUG) then
        (let s1 = TallyFreePage s entry;
             real = uint (entry AND PAGE_TA);
             mug = real - real mod pagesize cfg
         in if Munmap_result h (tick s1) \<noteq> 0 then None
            else
              Some (False,
                    s1 \<lparr> hostlog := HostMunmap mug (real - mug + size') # hostlog s1,
                         tick := Suc (tick s1) \<rparr>,
                    acc \<lparr> mutated := True,
                          rss_delta := (if NOT entry AND PAGE_RSRV \<noteq> 0
                                        then rss_delta acc - 1 else rss_delta acc) \<rparr>))
      else if entry AND (PAGE_HOST OR PAGE_MAP OR PAGE_MUG) = (PAGE_HOST OR PAGE_MAP) then
        Some (True, TallyFreePage s entry,
              acc \<lparr> rss_delta := (if NOT entry AND PAGE_RSRV \<noteq> 0
                                  then rss_delta acc - 1 else rss_delta acc) \<rparr>)
      else if entry AND PAGE_RSRV \<noteq> 0 then
        Some (False, TallyFreePage s entry, acc)
      else if uint (entry AND PAGE_TA) < kRealSize cfg then Some (False, s, acc)
      else None)"

text \<open>
  \<open>AddPageToRanges(ranges, virt, end)\<close>, with the state for the \<open>realloc\<close> of a
  new range.
\<close>

definition AddPageToRanges ::
  "Host \<Rightarrow> System \<Rightarrow> (int \<times> int) list \<Rightarrow> int \<Rightarrow> int \<Rightarrow> (System \<times> (int \<times> int) list) option" where
  "AddPageToRanges h s rs virt end' =
     (case rs of
        (a, b) # rest \<Rightarrow>
          if b = virt then Some (s, (a, virt + min 4096 (end' - virt)) # rest)
          else if malloc_ok h (tick s)
          then Some (s \<lparr> tick := Suc (tick s) \<rparr>,
                     (virt, virt + min 4096 (end' - virt)) # rs)
          else None
      | [] \<Rightarrow>
          if malloc_ok h (tick s)
          then Some (s \<lparr> tick := Suc (tick s) \<rparr>, [(virt, virt + min 4096 (end' - virt))])
          else None)"

text \<open>
  \<open>RemoveVirtual\<close>, from \<open>virt\<close> to \<open>end\<close>:
  \<^verbatim>\<open>for (end = virt + size; virt < end; virt += 1ull << i)\<close>.
  Its callers have checked the interval with \<open>IsValidAddrSize\<close>, so that \<open>virt\<close> and
  the step stay far from the ends of \<open>i64\<close>.
\<close>

function RemoveVirtual ::
  "Config \<Rightarrow> Host \<Rightarrow> System \<Rightarrow> int \<Rightarrow> int \<Rightarrow> RemoveAcc \<Rightarrow> (System \<times> RemoveAcc) option" where
  "RemoveVirtual cfg h s virt end' acc =
     (if virt < end' then
        (case walk_from_cr3 s virt of
           (mi, pt, i) \<Rightarrow>
             if pt AND PAGE_V = 0 then RemoveVirtual cfg h s (virt + 2 ^ i) end' acc
             else
               (case FreePage cfg h s pt (min 4096 (end' - virt)) acc of
                  None \<Rightarrow> None
                | Some (lin, s1, acc1) \<Rightarrow>
                    (case (if lin \<and> linear cfg
                           then AddPageToRanges h s1 (ranges acc1) virt end'
                           else Some (s1, ranges acc1)) of
                       None \<Rightarrow> None
                     | Some (s2, rs) \<Rightarrow>
                         RemoveVirtual cfg h (Store64 s2 mi 0) (virt + 2 ^ i) end'
                           (acc1 \<lparr> ranges := rs, vss_delta := vss_delta acc1 - 1 \<rparr>))))
      else Some (s, acc))"
  by pat_completeness auto
termination
  by (relation "measure (\<lambda>(cfg, h, s, virt, end', acc). nat (end' - virt))") auto

declare RemoveVirtual.simps [simp del]

text \<open>The loop of \<open>FreeVirtual\<close> over the ranges, oldest first.\<close>

fun FreeVirtual_munmap ::
  "Config \<Rightarrow> Host \<Rightarrow> (int \<times> int) list \<Rightarrow> int \<times> errno option \<times> System \<Rightarrow> int \<times> errno option \<times> System" where
  "FreeVirtual_munmap cfg h [] res = res"
| "FreeVirtual_munmap cfg h ((a, b) # rs) (rc, e, s) =
     (let s1 = s \<lparr> hostlog := HostMunmap (a + kSkew cfg) (b - a) # hostlog s,
                   tick := Suc (tick s) \<rparr>
      in if Munmap_result h (tick s) \<noteq> 0
         then FreeVirtual_munmap cfg h rs (- 1, Some EINVAL, s1)
         else FreeVirtual_munmap cfg h rs (rc, e, s1))"

definition FreeVirtual :: "Config \<Rightarrow> Host \<Rightarrow> System \<Rightarrow> int \<Rightarrow> int \<Rightarrow> System outcome" where
  "FreeVirtual cfg h s virt size' =
     (if \<not> IsValidAddrSize virt size' then Returns (- 1) (Some EINVAL) s
      else
        (case RemoveVirtual cfg h s virt (virt + size')
                \<lparr> ranges = [], mutated = False, vss_delta = 0, rss_delta = 0 \<rparr> of
           None \<Rightarrow> Aborts
         | Some (s1, acc) \<Rightarrow>
             (case FreeVirtual_munmap cfg h (rev (ranges acc)) (0, None, s1) of
                (rc, e, s2) \<Rightarrow>
                  (let s3 = s2 \<lparr> vss := vss s2 + vss_delta acc,
                                rss := rss s2 + rss_delta acc,
                                memchurn := memchurn s2 + - vss_delta acc \<rparr>;
                       s4 = (if vss s3 < 0 then s3 \<lparr> vss := 0 \<rparr> else s3);
                       s5 = (if rss s4 < 0 then s4 \<lparr> rss := 0 \<rparr> else s4)
                   in Returns rc e (s5 \<lparr> invalidated := True \<rparr>)))))"

subsection \<open>\<open>FindVirtual\<close>\<close>




subsection \<open>\<open>ReserveVirtual\<close>\<close>

text \<open>
  The walk of \<open>ReserveVirtual\<close> through the levels above the leaves; a table that is
  missing is made with \<open>AllocatePageTable\<close>. \<open>None\<close> when the process ends
  (\<open>exit(250)\<close> without memory for a table, or an \<open>unassert\<close> of the page pool).
\<close>

fun descend_alloc :: "Host \<Rightarrow> System \<Rightarrow> nat \<Rightarrow> u64 \<Rightarrow> int \<Rightarrow> (slot \<times> System) option" where
  "descend_alloc h s 0 pt virt = Some ((GetPageAddress pt, pml4_index virt 12), s)"
| "descend_alloc h s (Suc n) pt virt =
     (let mi = (GetPageAddress pt, pml4_index virt (21 + 9 * n));
          pt1 = Load64 s mi
      in if pt1 AND PAGE_V = 0 then
           (case AllocatePageTable h s of
              None \<Rightarrow> None
            | Some (pt2, s1) \<Rightarrow>
                if pt2 = - 1 then None
                else descend_alloc h (Store64 s1 mi pt2) n pt2 virt)
         else descend_alloc h s n pt1 virt)"

text \<open>
  The arguments of \<open>ReserveVirtual\<close> that its last loop reads: \<open>flags\<close> (with the bits
  the function has added), \<open>fd\<close>, \<open>shared\<close>, \<open>prot\<close> and \<open>end\<close>.
\<close>

record MapArgs =
  ma_flags :: u64
  ma_fd :: int
  ma_shared :: bool
  ma_prot :: int
  ma_end :: int

text \<open>
  The entry for the page at \<open>virt\<close>, before \<open>PAGE_RSRV\<close> and \<open>PAGE_EOF\<close>: the entry,
  the state and \<open>offset\<close> afterwards, or \<open>None\<close> when the process ends
  (\<open>PanicDueToMmap\<close>, or the \<open>unassert\<close> on the bits of \<open>real\<close>).
\<close>

definition ReserveVirtual_entry ::
  "Config \<Rightarrow> Host \<Rightarrow> System \<Rightarrow> MapArgs \<Rightarrow> int \<Rightarrow> int \<Rightarrow> (u64 \<times> System \<times> int) option" where
  "ReserveVirtual_entry cfg h s ma virt offset =
     (if ma_flags ma AND PAGE_MAP \<noteq> 0 then
        (if ma_flags ma AND PAGE_MUG \<noteq> 0 then
           (let mugskew = (if ma_fd ma \<noteq> - 1
                           then offset - (offset - offset mod pagesize cfg) else 0)
            in case AllocateBig_result h (tick s) of
                 None \<Rightarrow> None
               | Some mug \<Rightarrow>
                   (let real = uint mug + mugskew in
                    if (word_of_int real :: u64) AND NOT PAGE_TA \<noteq> 0 then None
                    else Some (word_of_int real OR ma_flags ma OR PAGE_V,
                               s \<lparr> tick := Suc (tick s) \<rparr>, offset + 4096)))
         else
           (let real = virt + kSkew cfg in
            if (word_of_int real :: u64) AND NOT PAGE_TA \<noteq> 0 then None
            else Some (word_of_int real OR ma_flags ma OR PAGE_V, s, offset)))
      else Some (ma_flags ma OR PAGE_V, s, offset))"

text \<open>
  The last loop of \<open>ReserveVirtual\<close>: \<open>ReserveVirtual_crawl\<close> is the body of the outer
  \<open>for (end = virt + size;;)\<close>, \<open>ReserveVirtual_leaves\<close> the inner \<open>for (;;)\<close> over
  the entries of one leaf table.
\<close>

function ReserveVirtual_crawl ::
    "Config \<Rightarrow> Host \<Rightarrow> MapArgs \<Rightarrow> System \<Rightarrow> int \<Rightarrow> int \<Rightarrow> System outcome"
  and ReserveVirtual_leaves ::
    "Config \<Rightarrow> Host \<Rightarrow> MapArgs \<Rightarrow> System \<Rightarrow> slot \<Rightarrow> int \<Rightarrow> int \<Rightarrow> System outcome" where
  "ReserveVirtual_crawl cfg h ma s virt offset =
     (case descend_alloc h s 3 (cr3 s) virt of
        None \<Rightarrow> Aborts
      | Some (mi, s1) \<Rightarrow> ReserveVirtual_leaves cfg h ma s1 mi virt offset)"
| "ReserveVirtual_leaves cfg h ma s mi virt offset =
     (if Load64 s mi AND PAGE_V \<noteq> 0 then Aborts
      else
        (case ReserveVirtual_entry cfg h s ma virt offset of
           None \<Rightarrow> Aborts
         | Some (entry, s1, offset1) \<Rightarrow>
             (let s2 = s1 \<lparr> vss := vss s1 + 1 \<rparr>;
                  s3 = (if linear cfg then s2 \<lparr> rss := rss s2 + 1 \<rparr> else s2);
                  entry1 = (if linear cfg then entry else entry OR PAGE_RSRV);
                  entry2 = (if ma_fd ma \<noteq> - 1 \<and> virt + 4096 \<ge> ma_end ma
                            then entry1 OR PAGE_EOF else entry1);
                  s4 = Store64 s3 mi entry2
              in if virt + 4096 \<ge> ma_end ma then Returns 0 None s4
                 else if Suc (snd mi) = 512
                 then ReserveVirtual_crawl cfg h ma s4 (virt + 4096) offset1
                 else ReserveVirtual_leaves cfg h ma s4 (fst mi, Suc (snd mi))
                        (virt + 4096) offset1)))"
  by pat_completeness auto
termination
  by (relation "measure (\<lambda>x. case x of
          Inl (cfg, h, ma, s, virt, offset) \<Rightarrow> 2 * nat (ma_end ma - virt) + 1
        | Inr (cfg, h, ma, s, mi, virt, offset) \<Rightarrow> 2 * nat (ma_end ma - virt))")
     auto

declare ReserveVirtual_crawl.simps [simp del] ReserveVirtual_leaves.simps [simp del]

text \<open>The \<open>munmap\<close> of every range before a greenfield mapping; results are not read.\<close>

fun ReserveVirtual_munmap :: "Config \<Rightarrow> (int \<times> int) list \<Rightarrow> System \<Rightarrow> System" where
  "ReserveVirtual_munmap cfg [] s = s"
| "ReserveVirtual_munmap cfg ((a, b) # rs) s =
     ReserveVirtual_munmap cfg rs
       (s \<lparr> hostlog := HostMunmap (a + kSkew cfg) (b - a) # hostlog s,
            tick := Suc (tick s) \<rparr>)"

text \<open>
  \<open>ReserveVirtual(s, virt, size, flags, fd, offset, shared)\<close>. The system is in long
  mode. In the record of the host's \<open>mmap\<close>, the flag says whether the method is
  \<open>MAP_FIXED\<close> (otherwise \<open>MAP_DEMAND\<close>).
\<close>

definition ReserveVirtual ::
  "Config \<Rightarrow> Host \<Rightarrow> System \<Rightarrow> int \<Rightarrow> int \<Rightarrow> u64 \<Rightarrow> int \<Rightarrow> int \<Rightarrow> bool \<Rightarrow> System outcome" where
  "ReserveVirtual cfg h s virt size' flags fd offset shared =
     (if flags AND PAGE_TA \<noteq> 0 \<or> flags AND PAGE_MAP \<noteq> 0 \<or>
         flags AND PAGE_HOST \<noteq> 0 \<or> flags AND PAGE_RSRV \<noteq> 0 then Aborts
      else if \<not> IsValidAddrSize virt size' then Returns (- 1) (Some EINVAL) s
      else if linear cfg \<and> OverlapsPrecious cfg virt size' then Returns (- 1) (Some ENOMEM) s
      else if fd \<noteq> - 1 \<and> offset AND 4095 \<noteq> 0 then Returns (- 1) (Some EINVAL) s
      else if linear cfg \<and> virt \<le> 0 then Returns (- 1) (Some ENOTSUP) s
      else if linear cfg \<and> virt AND (pagesize cfg - 1) \<noteq> 0 then Returns (- 1) (Some EINVAL) s
      else if linear cfg \<and> offset AND (pagesize cfg - 1) \<noteq> 0 then Returns (- 1) (Some EINVAL) s
      else
        (case RemoveVirtual cfg h s virt (virt + size')
                \<lparr> ranges = [], mutated = False, vss_delta = 0, rss_delta = 0 \<rparr> of
           None \<Rightarrow> Aborts
         | Some (s1, acc) \<Rightarrow>
             (let fixed = (linear cfg \<and> ranges acc = [(virt, virt + size')]);
                  greenfield = (linear cfg \<and> ranges acc \<noteq> [] \<and> \<not> fixed);
                  s2 = (if greenfield then ReserveVirtual_munmap cfg (rev (ranges acc)) s1
                        else s1);
                  no_retreat_no_surrender = (mutated acc \<or> greenfield);
                  prot = (if flags AND PAGE_U \<noteq> 0 then PROT_READ else 0) OR
                         (if flags AND PAGE_RW \<noteq> 0 \<or> fd = - 1 then PROT_WRITE else 0);
                  account = (\<lambda>s. let s' = s \<lparr> vss := vss s + vss_delta acc,
                                               rss := rss s + rss_delta acc,
                                               memchurn := memchurn s + - vss_delta acc \<rparr>;
                                      s'' = (if vss s' < 0 then s' \<lparr> vss := 0 \<rparr> else s')
                                  in if rss s'' < 0 then s'' \<lparr> rss := 0 \<rparr> else s'')
              in if linear cfg then
                   (let s3 = s2 \<lparr> hostlog := HostMmap (virt + kSkew cfg) size' prot fixed
                                               fd offset # hostlog s2,
                                  tick := Suc (tick s2) \<rparr>
                    in if Mmap_result h (tick s2) \<noteq> MmapAt (virt + kSkew cfg) then
                         (if Mmap_result h (tick s2) = MmapENOMEM \<and> \<not> no_retreat_no_surrender
                          then Returns (- 1) (Some ENOMEM) s3
                          else Aborts)
                       else
                         ReserveVirtual_crawl cfg h
                           \<lparr> ma_flags = flags OR PAGE_HOST OR PAGE_MAP, ma_fd = fd,
                             ma_shared = shared, ma_prot = prot, ma_end = virt + size' \<rparr>
                           (account
                              (s3 \<lparr> memstat_allocated := memstat_allocated s3 + size' div 4096,
                                    memstat_committed := memstat_committed s3 + size' div 4096 \<rparr>))
                           virt offset)
                 else
                   ReserveVirtual_crawl cfg h
                     \<lparr> ma_flags = (if fd \<noteq> - 1 \<or> shared
                                    then flags OR PAGE_HOST OR PAGE_MAP OR PAGE_MUG else flags),
                       ma_fd = fd, ma_shared = shared, ma_prot = prot, ma_end = virt + size' \<rparr>
                     (account (s2 \<lparr> memstat_reserved := memstat_reserved s2 + size' div 4096 \<rparr>))
                     virt offset)))"

subsection \<open>\<open>ProtectVirtual\<close>\<close>

definition SetProtection :: "int \<Rightarrow> u64" where
  "SetProtection prot =
     (if prot AND PROT_READ \<noteq> 0 then PAGE_U else 0) OR
     (if prot AND PROT_WRITE \<noteq> 0 then PAGE_RW else 0) OR
     (if NOT prot AND PROT_EXEC \<noteq> 0 then PAGE_XD else 0)"

text \<open>
  The protection that \<open>ProtectVirtual\<close> passes to the host: \<open>prot\<close> without
  \<open>PROT_EXEC\<close>, or read and write under the condition of the code.
\<close>

definition ProtectVirtual_sysprot :: "Config \<Rightarrow> int \<Rightarrow> int \<Rightarrow> int \<Rightarrow> int" where
  "ProtectVirtual_sysprot cfg virt size' prot =
     (if linear cfg \<and>
         (virt AND (pagesize cfg - 1) \<noteq> 0 \<and> size' AND (pagesize cfg - 1) \<noteq> 0)
      then PROT_READ OR PROT_WRITE
      else prot AND NOT PROT_EXEC)"

text \<open>
  What the crawl of \<open>ProtectVirtual\<close> carries: the state, the ranges (newest first)
  and \<open>rc\<close>.
\<close>

record ProtectAcc =
  pa_sys :: System
  pa_ranges :: "(int \<times> int) list"
  pa_rc :: int

text \<open>
  One entry of the crawl: a linear page joins the ranges, a mug page is protected on
  its own, and the entry gets the new key. \<open>None\<close> when an \<open>unassert\<close> fails.
\<close>

definition ProtectVirtual_entry ::
  "Config \<Rightarrow> Host \<Rightarrow> u64 \<Rightarrow> int \<Rightarrow> int \<Rightarrow> ProtectAcc \<Rightarrow> slot \<Rightarrow> int \<Rightarrow> ProtectAcc option" where
  "ProtectVirtual_entry cfg h key sysprot end' acc mi virt =
     (let s = pa_sys acc; pt = Load64 s mi in
      if pt AND PAGE_V = 0 then None
      else
        (case (if linear cfg \<and>
                  pt AND (PAGE_HOST OR PAGE_MAP OR PAGE_MUG) = (PAGE_HOST OR PAGE_MAP)
               then (case AddPageToRanges h s (pa_ranges acc) virt end' of
                       None \<Rightarrow> None
                     | Some (s1, rs) \<Rightarrow> Some (acc \<lparr> pa_sys := s1, pa_ranges := rs \<rparr>))
               else if pt AND (PAGE_HOST OR PAGE_MAP OR PAGE_MUG) =
                       (PAGE_HOST OR PAGE_MAP OR PAGE_MUG)
               then
                 (let real = uint (pt AND PAGE_TA) - uint (pt AND PAGE_TA) mod pagesize cfg;
                      s1 = s \<lparr> hostlog := HostMprotect real (pagesize cfg) sysprot # hostlog s,
                                tick := Suc (tick s) \<rparr>
                  in Some (acc \<lparr> pa_sys := s1,
                                 pa_rc := (if Mprotect_result h (tick s) \<noteq> 0
                                           then - 1 else pa_rc acc) \<rparr>))
               else Some acc) of
           None \<Rightarrow> None
         | Some acc1 \<Rightarrow>
             Some (acc1 \<lparr> pa_sys :=
                            Store64 (pa_sys acc1) mi
                              ((pt AND NOT (PAGE_U OR PAGE_RW OR PAGE_XD)) OR key) \<rparr>)))"

function ProtectVirtual_crawl ::
    "Config \<Rightarrow> Host \<Rightarrow> u64 \<Rightarrow> int \<Rightarrow> int \<Rightarrow> ProtectAcc \<Rightarrow> int \<Rightarrow> ProtectAcc option"
  and ProtectVirtual_leaves ::
    "Config \<Rightarrow> Host \<Rightarrow> u64 \<Rightarrow> int \<Rightarrow> int \<Rightarrow> ProtectAcc \<Rightarrow> slot \<Rightarrow> int \<Rightarrow> ProtectAcc option" where
  "ProtectVirtual_crawl cfg h key sysprot end' acc virt =
     (case descend (pa_sys acc) 3 (cr3 (pa_sys acc)) virt of
        None \<Rightarrow> None
      | Some mi \<Rightarrow> ProtectVirtual_leaves cfg h key sysprot end' acc mi virt)"
| "ProtectVirtual_leaves cfg h key sysprot end' acc mi virt =
     (case ProtectVirtual_entry cfg h key sysprot end' acc mi virt of
        None \<Rightarrow> None
      | Some acc1 \<Rightarrow>
          if virt + 4096 \<ge> end' then Some acc1
          else if Suc (snd mi) = 512
          then ProtectVirtual_crawl cfg h key sysprot end' acc1 (virt + 4096)
          else ProtectVirtual_leaves cfg h key sysprot end' acc1 (fst mi, Suc (snd mi))
                 (virt + 4096))"
  by pat_completeness auto
termination
  by (relation "measure (\<lambda>x. case x of
          Inl (cfg, h, key, sysprot, end', acc, virt) \<Rightarrow> 2 * nat (end' - virt) + 1
        | Inr (cfg, h, key, sysprot, end', acc, mi, virt) \<Rightarrow> 2 * nat (end' - virt))")
     auto

declare ProtectVirtual_crawl.simps [simp del] ProtectVirtual_leaves.simps [simp del]

text \<open>
  The loop after \<open>FinishedCrawling\<close>, over the ranges, oldest first: a range that
  does not start on a host page is only logged.
\<close>

fun ProtectVirtual_ranges ::
  "Config \<Rightarrow> Host \<Rightarrow> int \<Rightarrow> (int \<times> int) list \<Rightarrow> int \<times> System \<Rightarrow> int \<times> System" where
  "ProtectVirtual_ranges cfg h sysprot [] res = res"
| "ProtectVirtual_ranges cfg h sysprot ((a, b) # rs) (rc, s) =
     (if a AND (pagesize cfg - 1) \<noteq> 0 then ProtectVirtual_ranges cfg h sysprot rs (rc, s)
      else
        ProtectVirtual_ranges cfg h sysprot rs
          (if Mprotect_result h (tick s) \<noteq> 0 then - 1 else rc,
           s \<lparr> hostlog := HostMprotect (a + kSkew cfg) (b - a) sysprot # hostlog s,
                tick := Suc (tick s) \<rparr>))"

text \<open>
  \<open>ProtectVirtual(s, virt, size, prot)\<close>. When a host call has failed the \<open>errno\<close>
  is the host's, which the model does not name.
\<close>

definition ProtectVirtual :: "Config \<Rightarrow> Host \<Rightarrow> System \<Rightarrow> int \<Rightarrow> int \<Rightarrow> int \<Rightarrow> System outcome" where
  "ProtectVirtual cfg h s virt size' prot =
     (if \<not> IsValidAddrSize virt size' then Returns (- 1) (Some EINVAL) s
      else if \<not> IsFullyMapped s virt size' then Returns (- 1) (Some ENOMEM) s
      else
        (let key = SetProtection prot;
             sysprot = ProtectVirtual_sysprot cfg virt size' prot
         in case ProtectVirtual_crawl cfg h key sysprot (virt + size')
                   \<lparr> pa_sys = s, pa_ranges = [], pa_rc = 0 \<rparr> virt of
              None \<Rightarrow> Aborts
            | Some acc \<Rightarrow>
                (case (if linear cfg
                       then ProtectVirtual_ranges cfg h sysprot (rev (pa_ranges acc))
                              (pa_rc acc, pa_sys acc)
                       else (pa_rc acc, pa_sys acc)) of
                   (rc, s1) \<Rightarrow> Returns rc None (s1 \<lparr> invalidated := True \<rparr>))))"



subsection \<open>A configuration, a host and two systems\<close>

text \<open>
  The claims are evaluated on a linear configuration with 64 KiB host pages and no
  skew, on a host that grants every request, on \<open>system0\<close>, whose page table is empty
  and whose pool holds four pages, and on \<open>system1\<close>, in which the page at
  \<open>0x10000\<close> is mapped linearly, readable and writable, through the tables at
  \<open>0x2000\<close>, \<open>0x3000\<close> and \<open>0x4000\<close>.
\<close>

definition config0 :: Config where
  "config0 = \<lparr> linear = True, pagesize = 65536, kSkew = 0,
               kPreciousStart = 0x100000000000, kPreciousEnd = 0x200000000000,
               kRealSize = 0 \<rparr>"

definition memhost0 :: Host where
  "memhost0 = \<lparr> AllocateBig_result = (\<lambda>_. Some 0x100000000000), malloc_ok = (\<lambda>_. True),
                 Munmap_result = (\<lambda>_. 0), Mprotect_result = (\<lambda>_. 0),
                 Mmap_result = (\<lambda>_. MmapAt 0x10000) \<rparr>"

definition system0 :: System where
  "system0 = \<lparr> cr3 = 0x1403, mem = (\<lambda>_ _. 0), vss = 0, rss = 1, memchurn = 0,
               memstat_allocated = 0, memstat_committed = 0, memstat_reserved = 0,
               memstat_freed = 0, memstat_reclaimed = 0, memstat_pagetables = 1,
               pages = [0x2000, 0x3000, 0x4000, 0x5000], invalidated = False,
               hostlog = [], tick = 0 \<rparr>"

definition system1 :: System where
  "system1 = system0
     \<lparr> mem := (\<lambda>p i. if p = 0x1000 \<and> i = 0 then 0x2403
                     else if p = 0x2000 \<and> i = 0 then 0x3403
                     else if p = 0x3000 \<and> i = 0 then 0x4403
                     else if p = 0x4000 \<and> i = 16 then 0x10C07
                     else 0),
       pages := [0x5000], vss := 1, rss := 5 \<rparr>"


subsection \<open>\<open>FreePageTables\<close>\<close>



subsection \<open>The pool holds zero-filled pages\<close>







subsection \<open>Tables that only gain entries\<close>

text \<open>
  \<open>grows s s'\<close>: the root is the same and every entry that is valid in \<open>s\<close> has the same
  value in \<open>s'\<close>. \<open>ReserveVirtual\<close> stores only into entries that are not valid, so each
  of its stores is a step of this relation.
\<close>

definition grows :: "System \<Rightarrow> System \<Rightarrow> bool" where
  "grows s s' =
     (cr3 s' = cr3 s \<and> (\<forall>k. Load64 s k AND PAGE_V \<noteq> 0 \<longrightarrow> Load64 s' k = Load64 s k))"

text \<open>
  \<open>leaf_valid s virt\<close>: the walk from \<open>cr3\<close> through valid tables reaches the leaf entry
  of the page at \<open>virt\<close>, and that entry has \<open>PAGE_V\<close>.
\<close>

definition leaf_valid :: "System \<Rightarrow> int \<Rightarrow> bool" where
  "leaf_valid s virt =
     (case descend s 3 (cr3 s) virt of
        None \<Rightarrow> False
      | Some mi \<Rightarrow> Load64 s mi AND PAGE_V \<noteq> 0)"

subsection \<open>Tables that are not aliased\<close>

text \<open>
  \<open>upper_tables s n pt virt\<close>: the pages of the tables above the leaves that the walk for
  \<open>virt\<close> reads, from level \<open>12 + 9 * n\<close> down to level 21.
\<close>

fun upper_tables :: "System \<Rightarrow> nat \<Rightarrow> u64 \<Rightarrow> int \<Rightarrow> u64 list" where
  "upper_tables s 0 pt virt = []"
| "upper_tables s (Suc n) pt virt =
     (let mi = (GetPageAddress pt, pml4_index virt (21 + 9 * n));
          pt1 = Load64 s mi
      in GetPageAddress pt #
         (if pt1 AND PAGE_V = 0 then [] else upper_tables s n pt1 virt))"

text \<open>
  \<open>tables_unaliased s\<close>: the table that holds a valid leaf, and the page of a valid leaf
  with \<open>PAGE_HOST\<close> alone (the page that \<open>FreePage\<close> clears), are not among the tables
  above the leaves. \<open>RemoveVirtual\<close> writes only to such tables and pages.
\<close>

definition tables_unaliased :: "System \<Rightarrow> bool" where
  "tables_unaliased s =
     (\<forall>v w. case walk_from_cr3 s v of
        (mi, pt, i) \<Rightarrow>
          pt AND PAGE_V \<noteq> 0 \<longrightarrow>
            fst mi \<notin> set (upper_tables s 3 (cr3 s) w) \<and>
            (pt AND (PAGE_HOST OR PAGE_MAP OR PAGE_MUG) = PAGE_HOST \<longrightarrow>
               pt AND PAGE_TA \<notin> set (upper_tables s 3 (cr3 s) w)))"

text \<open>
  \<open>shrinks s s'\<close>: the root and the tables above the leaves are the same, and every
  64-bit value of memory is what it was in \<open>s\<close> or zero.
\<close>

definition shrinks :: "System \<Rightarrow> System \<Rightarrow> bool" where
  "shrinks s s' =
     (cr3 s' = cr3 s \<and>
      (\<forall>w. \<forall>p \<in> set (upper_tables s 3 (cr3 s) w). mem s' p = mem s p) \<and>
      (\<forall>p j. mem s' p j = mem s p j \<or> mem s' p j = 0))"

subsection \<open>States that differ by cleared memory\<close>

text \<open>
  \<open>only_clears s s'\<close>: every 64-bit value of memory is what it was in \<open>s\<close> or zero.
  \<open>FreePageTables\<close> writes nothing but zeros.
\<close>

definition only_clears :: "System \<Rightarrow> System \<Rightarrow> bool" where
  "only_clears s s' = (\<forall>p i. mem s' p i = mem s p i \<or> mem s' p i = 0)"

chapter \<open>Properties\<close>

section \<open>Descriptors and \<open>pipe2\<close>\<close>

subsection \<open>Claim C10\<close>

text \<open>
  C10. For every descriptor table and every negative \<open>fildes\<close>, \<open>AddFd\<close> sets \<open>errno\<close> to
  \<open>EINVAL\<close>, returns null and leaves the descriptor list unchanged; for every nonnegative
  \<open>fildes\<close>, when the allocation succeeds, it prepends a new descriptor whose \<open>fildes\<close>
  and \<open>oflags\<close> fields equal the arguments.
\<close>

theorem AddFd_negative_or_prepends:
  "(fd_no < 0 \<longrightarrow> AddFd calloc_ok fds_list fd_no fl = (None, fds_list, Some EINVAL)) \<and>
   (0 \<le> fd_no \<longrightarrow>
      (\<exists>fd. AddFd True fds_list fd_no fl = (Some fd, fd # fds_list, None) \<and>
            fildes fd = fd_no \<and> oflags fd = fl))"
  by (simp add: AddFd_def calloc_Fd_def Let_def)

theorem AddFd_negative_or_prepends_witness:
  "AddFd True [] (-1) 2 = (None, [], Some EINVAL) \<and>
   (\<exists>fd. AddFd True [] 3 1 = (Some fd, [fd], None) \<and> fildes fd = 3 \<and> oflags fd = 1)"
  using AddFd_negative_or_prepends [of "-1" True "[]" 2]
        AddFd_negative_or_prepends [of 3 True "[]" 1]
  by simp

lemma store_bytes_other:
  "a < addr \<or> addr + int (length bs) \<le> a \<Longrightarrow> store_bytes gm addr bs a = gm a"
  by (induction bs arbitrary: gm addr) auto

lemma store_bytes_nth:
  "k < length bs \<Longrightarrow> store_bytes gm addr bs (addr + int k) = bs ! k"
proof (induction bs arbitrary: gm addr k)
  case Nil
  then show ?case by simp
next
  case (Cons b bs)
  show ?case
  proof (cases k)
    case 0
    then show ?thesis by (simp add: store_bytes_other)
  next
    case (Suc j)
    with Cons.prems have j: "j < length bs" by simp
    have "store_bytes gm addr (b # bs) (addr + int k) =
          store_bytes (gm(addr := b)) (addr + 1) bs ((addr + 1) + int j)"
      using Suc by (simp add: add.assoc)
    also have "\<dots> = bs ! j" by (rule Cons.IH[OF j])
    finally show ?thesis using Suc by simp
  qed
qed

lemma length_Write32: "length (Write32 x) = 4"
  by (simp add: Write32_def)

lemma Write32_nth: "k < 4 \<Longrightarrow> Write32 x ! k = ucast (drop_bit (8 * k) x)"
proof -
  assume "k < 4"
  then consider "k = 0" | "k = 1" | "k = 2" | "k = 3" by linarith
  then show ?thesis by cases (simp_all add: Write32_def)
qed

lemma SysPipe2_unsupported:
  "flags AND NOT (O_CLOEXEC_LINUX OR O_NDELAY_LINUX) \<noteq> 0 \<Longrightarrow>
   SysPipe2 hc h m addr flags = Returns (-1) (Some EINVAL) m"
  by (simp add: SysPipe2_def Let_def)

text \<open>
  A call that returns 0 got two descriptors from the host, added both and stored the
  eight bytes.
\<close>

lemma SysPipe2_Returns0D:
  assumes "SysPipe2 hc h m addr flags = Returns 0 e m'"
  shows "\<exists>fd0 fd1. pipe_result h = Inr (fd0, fd1) \<and>
     fds m' = calloc_Fd \<lparr> cb := Some kFdCbHost, fildes := fd1,
                          oflags := O_WRONLY hc OR pipe_oflags hc flags \<rparr> #
              calloc_Fd \<lparr> cb := Some kFdCbHost, fildes := fd0,
                          oflags := O_RDONLY hc OR pipe_oflags hc flags \<rparr> #
              fds m \<and>
     gbytes m' = store_bytes (gbytes m) addr
                   (Write32 (word_of_int fd0) @ Write32 (word_of_int fd1))"
  using assms
  by (auto simp: SysPipe2_def Let_def AddFd_def CopyToUserWrite_def pipe_oflags_def
           split: if_splits sum.splits prod.splits option.splits)

lemma SysPipe2_success:
  assumes "SysPipe2 hc h m addr flags = Returns 0 e m'"
  shows "\<exists>fd0 fd1 a b. pipe_result h = Inr (fd0, fd1) \<and>
     fds m' = b # a # fds m \<and>
     fildes a = fd0 \<and> oflags a = O_RDONLY hc OR pipe_oflags hc flags \<and>
     fildes b = fd1 \<and> oflags b = O_WRONLY hc OR pipe_oflags hc flags \<and>
     (\<forall>k<4. gbytes m' (addr + int k) = ucast (drop_bit (8 * k) (word_of_int fd0 :: u32))) \<and>
     (\<forall>k<4. gbytes m' (addr + 4 + int k) = ucast (drop_bit (8 * k) (word_of_int fd1 :: u32)))"
proof -
  from SysPipe2_Returns0D[OF assms] obtain fd0 fd1 where
    pr: "pipe_result h = Inr (fd0, fd1)" and
    l: "fds m' = calloc_Fd \<lparr> cb := Some kFdCbHost, fildes := fd1,
                             oflags := O_WRONLY hc OR pipe_oflags hc flags \<rparr> #
                 calloc_Fd \<lparr> cb := Some kFdCbHost, fildes := fd0,
                             oflags := O_RDONLY hc OR pipe_oflags hc flags \<rparr> #
                 fds m" and
    g: "gbytes m' = store_bytes (gbytes m) addr
                      (Write32 (word_of_int fd0) @ Write32 (word_of_int fd1))"
    by blast
  have len: "length (Write32 (word_of_int fd0) @ Write32 (word_of_int fd1)) = 8"
    by (simp add: length_Write32)
  have lo: "gbytes m' (addr + int k) = ucast (drop_bit (8 * k) (word_of_int fd0 :: u32))"
    if "k < 4" for k
  proof -
    have "gbytes m' (addr + int k) =
          (Write32 (word_of_int fd0) @ Write32 (word_of_int fd1)) ! k"
      unfolding g using that len by (intro store_bytes_nth) simp
    also have "\<dots> = Write32 (word_of_int fd0) ! k"
      using that by (simp add: nth_append length_Write32)
    finally show ?thesis using that by (simp add: Write32_nth)
  qed
  have hi: "gbytes m' (addr + 4 + int k) = ucast (drop_bit (8 * k) (word_of_int fd1 :: u32))"
    if "k < 4" for k
  proof -
    have "gbytes m' (addr + int (4 + k)) =
          (Write32 (word_of_int fd0) @ Write32 (word_of_int fd1)) ! (4 + k)"
      unfolding g using that len by (intro store_bytes_nth) simp
    also have "\<dots> = Write32 (word_of_int fd1) ! k"
      by (simp add: nth_append length_Write32)
    finally show ?thesis using that by (simp add: Write32_nth add.assoc)
  qed
  show ?thesis
    using pr l lo hi by simp
qed

subsection \<open>Claim C9\<close>

text \<open>
  C9. For every call \<open>SysPipe2(m, addr, flags)\<close>: if \<open>flags\<close> has a bit outside
  \<open>O_CLOEXEC_LINUX\<close> and \<open>O_NDELAY_LINUX\<close>, the call returns \<open>EINVAL\<close> and creates no
  descriptor (the machine, its descriptor table and the list of host calls are as
  before); otherwise, when it succeeds, the two descriptors of the host's pipe stand at
  guest address \<open>addr\<close> as little-endian 32-bit integers (byte \<open>k\<close> of each is bits
  \<open>8k\<close> to \<open>8k+7\<close>), and the descriptor table has gained them, with host flags
  \<open>O_RDONLY|oflags\<close> and \<open>O_WRONLY|oflags\<close>, where \<open>oflags\<close> is \<open>pipe_oflags\<close> of the
  guest's flags.
\<close>

theorem SysPipe2_einval_or_two_descriptors:
  "(flags AND NOT (O_CLOEXEC_LINUX OR O_NDELAY_LINUX) \<noteq> 0 \<longrightarrow>
      SysPipe2 hc h m addr flags = Returns (-1) (Some EINVAL) m) \<and>
   (SysPipe2 hc h m addr flags = Returns 0 e m' \<longrightarrow>
     (\<exists>fd0 fd1 a b. pipe_result h = Inr (fd0, fd1) \<and>
        fds m' = b # a # fds m \<and>
        fildes a = fd0 \<and> oflags a = O_RDONLY hc OR pipe_oflags hc flags \<and>
        fildes b = fd1 \<and> oflags b = O_WRONLY hc OR pipe_oflags hc flags \<and>
        (\<forall>k<4. gbytes m' (addr + int k) =
                 ucast (drop_bit (8 * k) (word_of_int fd0 :: u32))) \<and>
        (\<forall>k<4. gbytes m' (addr + 4 + int k) =
                 ucast (drop_bit (8 * k) (word_of_int fd1 :: u32)))))"
  using SysPipe2_unsupported SysPipe2_success by blast

theorem SysPipe2_einval_or_two_descriptors_witness:
  "SysPipe2 host0 pipehost0 pipemachine0 4096 4 = Returns (-1) (Some EINVAL) pipemachine0 \<and>
   (\<exists>m' fd0 fd1 a b.
      SysPipe2 host0 pipehost0 pipemachine0 4096 0x80000 = Returns 0 None m' \<and>
      pipe_result pipehost0 = Inr (fd0, fd1) \<and>
      fds m' = b # a # fds pipemachine0 \<and>
      fildes a = fd0 \<and> oflags a = O_RDONLY host0 OR pipe_oflags host0 0x80000 \<and>
      fildes b = fd1 \<and> oflags b = O_WRONLY host0 OR pipe_oflags host0 0x80000 \<and>
      (\<forall>k<4. gbytes m' (4096 + int k) = ucast (drop_bit (8 * k) (word_of_int fd0 :: u32))) \<and>
      (\<forall>k<4. gbytes m' (4096 + 4 + int k) = ucast (drop_bit (8 * k) (word_of_int fd1 :: u32))))"
proof -
  have bad: "(4::int) AND NOT (O_CLOEXEC_LINUX OR O_NDELAY_LINUX) \<noteq> 0"
    by (simp add: O_CLOEXEC_LINUX_def O_NDELAY_LINUX_def)
  have "\<exists>m'. SysPipe2 host0 pipehost0 pipemachine0 4096 0x80000 = Returns 0 None m'"
    by (simp add: SysPipe2_def O_CLOEXEC_LINUX_def O_NDELAY_LINUX_def host0_def pipehost0_def
          pipemachine0_def IsValidMemory_write_def AddFd_def CopyToUserWrite_def Let_def
          Write32_def)
  then obtain m' where
    ok: "SysPipe2 host0 pipehost0 pipemachine0 4096 0x80000 = Returns 0 None m'" ..
  from SysPipe2_einval_or_two_descriptors [of 4 host0 pipehost0 pipemachine0 4096] bad
  have first: "SysPipe2 host0 pipehost0 pipemachine0 4096 4 =
               Returns (-1) (Some EINVAL) pipemachine0"
    by blast
  from SysPipe2_einval_or_two_descriptors
         [of "0x80000" host0 pipehost0 pipemachine0 4096 None m'] ok
  have "\<exists>fd0 fd1 a b. pipe_result pipehost0 = Inr (fd0, fd1) \<and>
      fds m' = b # a # fds pipemachine0 \<and>
      fildes a = fd0 \<and> oflags a = O_RDONLY host0 OR pipe_oflags host0 0x80000 \<and>
      fildes b = fd1 \<and> oflags b = O_WRONLY host0 OR pipe_oflags host0 0x80000 \<and>
      (\<forall>k<4. gbytes m' (4096 + int k) = ucast (drop_bit (8 * k) (word_of_int fd0 :: u32))) \<and>
      (\<forall>k<4. gbytes m' (4096 + 4 + int k) = ucast (drop_bit (8 * k) (word_of_int fd1 :: u32)))"
    by blast
  with ok first show ?thesis by blast
qed

section \<open>Signal delivery\<close>

lemma rounded_frame_sp:
  fixes a :: u64
  assumes "n mod 16 = 8"
  shows "((a AND NOT 15) - of_nat n) AND 15 = 8"
proof -
  have m: "(15 :: u64) = mask 4" by (simp add: mask_eq_exp_minus_1)
  have "a AND NOT (mask 4) = push_bit 4 (drop_bit 4 a)"
    by (auto simp: bit_eq_iff bit_simps)
  then have b: "a AND NOT 15 = 16 * drop_bit 4 a"
    unfolding m by (simp add: push_bit_eq_mult)
  have "n = 16 * (n div 16) + 8"
    using assms by presburger
  then have "(of_nat n :: u64) = of_nat (16 * (n div 16) + 8)"
    by simp
  then have c: "(of_nat n :: u64) = 16 * of_nat (n div 16) + 8"
    by simp
  define d where "d = drop_bit 4 a - of_nat (n div 16) - 1"
  have e: "(a AND NOT 15) - of_nat n = 16 * d + 8"
    unfolding b c d_def by (simp add: algebra_simps)
  have "unat ((16 * d + 8) AND 15) = unat (16 * d + 8) mod 16"
    unfolding m by (simp add: take_bit_eq_mask [symmetric] take_bit_eq_mod unat_mod)
  also have "\<dots> = 8"
  proof -
    have dv: "(16::nat) dvd 2 ^ 64" by simp
    have "unat (16 * d + 8) = ((16 * unat d) mod 2 ^ 64 + 8) mod 2 ^ 64"
      by (simp add: unat_word_ariths)
    then have "unat (16 * d + 8) mod 16 = ((16 * unat d) mod 2 ^ 64 + 8) mod 16"
      by (simp only: mod_mod_cancel [OF dv])
    also have "\<dots> = ((16 * unat d) mod 2 ^ 64 mod 16 + 8) mod 16"
      by (simp only: mod_add_left_eq)
    also have "\<dots> = 8"
      by (simp only: mod_mod_cancel [OF dv]) simp
    finally show ?thesis .
  qed
  finally have "unat ((16 * d + 8) AND 15) = unat (8 :: u64)"
    by simp
  then show ?thesis
    unfolding e by (simp only: word_unat_eq_iff)
qed


lemma bsr_from_top: "\<exists>k\<le>n. bit x k \<Longrightarrow> bit x (bsr_from n x)"
proof (induction n)
  case 0
  then show ?case by simp
next
  case (Suc n)
  then show ?case by (auto simp: le_Suc_eq)
qed

lemma bsr_from_greatest: "bit x k \<Longrightarrow> k \<le> n \<Longrightarrow> k \<le> bsr_from n x"
proof (induction n)
  case 0
  then show ?case by simp
next
  case (Suc n)
  then show ?case by (auto simp: le_Suc_eq)
qed

lemma bsr_from_le: "bsr_from n x \<le> n"
  by (induction n) auto

lemma bit_bsr: "x \<noteq> 0 \<Longrightarrow> bit x (bsr x)"
proof -
  assume "x \<noteq> 0"
  then obtain k where k: "bit x k"
    by (auto simp: bit_eq_iff)
  then have "k < 64"
    by (auto dest: bit_imp_le_length)
  with k have "\<exists>k\<le>63. bit x k"
    by (intro exI[of _ k]) simp
  then show ?thesis
    unfolding bsr_def by (rule bsr_from_top)
qed

lemma bsr_greatest: "bit x k \<Longrightarrow> k \<le> bsr x"
proof -
  assume k: "bit x k"
  then have "k < 64"
    by (auto dest: bit_imp_le_length)
  with k show ?thesis
    unfolding bsr_def by (intro bsr_from_greatest) simp_all
qed

lemma bsr_less: "bsr x < 64"
  unfolding bsr_def using bsr_from_le [of 63 x] by simp

lemma unmasked_iff:
  "n < 64 \<Longrightarrow> (NOT w AND 2 ^ n \<noteq> (0::u64)) = (\<not> bit w n)"
proof -
  assume "n < 64"
  then have "bit (NOT w) n = (\<not> bit w n)" by (simp add: bit_not_iff)
  then show ?thesis by (simp only: bit_iff_and_push_bit_not_eq_0 push_bit_of_1)
qed


lemma ConsumeSignalLoop_unfold:
  assumes "pending \<noteq> 0"
  shows "ConsumeSignalLoop lay m d r pending =
    (if \<not> bit (sigmask m) (bsr pending) \<or> IsSignalTooDangerousToIgnore (int (bsr pending) + 1)
     then consume_step lay m d r (int (bsr pending) + 1)
     else ConsumeSignalLoop lay m d r (pending AND NOT (push_bit (bsr pending) 1)))"
  using assms bsr_less [of pending]
  by (subst ConsumeSignalLoop.simps)
     (simp add: consume_step_def Let_def unmasked_iff)

lemma ConsumeSignalLoop_first:
  assumes "bit pending n"
    and "\<forall>j. n < j \<and> bit pending j \<longrightarrow> bit (sigmask m) j \<and> \<not> IsSignalTooDangerousToIgnore (int j + 1)"
    and "bit (sigmask m) n \<longrightarrow> IsSignalTooDangerousToIgnore (int n + 1)"
  shows "ConsumeSignalLoop lay m d r pending = consume_step lay m d r (int n + 1)"
  using assms
proof (induction lay m d r pending rule: ConsumeSignalLoop.induct)
  case (1 lay m d r pending)
  from "1.prems"(1) have nz: "pending \<noteq> 0" by auto
  have top: "bit pending (bsr pending)" using nz by (rule bit_bsr)
  have ge: "n \<le> bsr pending" using "1.prems"(1) by (rule bsr_greatest)
  have lt: "bsr pending < 64" by (rule bsr_less)
  show ?case
  proof (cases "bsr pending = n")
    case True
    then show ?thesis
      using "1.prems"(3) by (simp add: ConsumeSignalLoop_unfold [OF nz])
  next
    case False
    with ge have gt: "n < bsr pending" by simp
    with "1.prems"(2) top have masked: "bit (sigmask m) (bsr pending)"
      and safe: "\<not> IsSignalTooDangerousToIgnore (int (bsr pending) + 1)" by auto
    let ?p = "pending AND NOT (push_bit (bsr pending) 1)"
    have p1: "bit ?p n"
      using "1.prems"(1) gt lt by (auto simp: bit_simps)
    have p2: "\<forall>j. n < j \<and> bit ?p j \<longrightarrow> bit (sigmask m) j \<and> \<not> IsSignalTooDangerousToIgnore (int j + 1)"
      using "1.prems"(2) by (auto simp: bit_simps)
    have um: "\<not> (NOT (sigmask m) AND push_bit (nat (int (bsr pending) + 1 - 1)) 1 \<noteq> 0)"
      using masked lt by (simp add: unmasked_iff)
    have "ConsumeSignalLoop lay m d r pending = ConsumeSignalLoop lay m d r ?p"
      using masked safe by (simp add: ConsumeSignalLoop_unfold [OF nz])
    also have "\<dots> = consume_step lay m d r (int n + 1)"
      using "1.IH"[OF nz refl um safe] p1 p2 "1.prems"(3) by simp
    finally show ?thesis .
  qed
qed

lemma ConsumeSignalLoop_none:
  assumes "\<forall>j. bit pending j \<longrightarrow>
             bit (sigmask m) j \<and> \<not> IsSignalTooDangerousToIgnore (int j + 1)"
  shows "ConsumeSignalLoop lay m d r pending = Consumed 0 d r m"
  using assms
proof (induction lay m d r pending rule: ConsumeSignalLoop.induct)
  case (1 lay m d r pending)
  show ?case
  proof (cases "pending = 0")
    case True
    then show ?thesis
      by (subst ConsumeSignalLoop.simps) simp
  next
    case nz: False
    have top: "bit pending (bsr pending)" using nz by (rule bit_bsr)
    have lt: "bsr pending < 64" by (rule bsr_less)
    from "1.prems" top have masked: "bit (sigmask m) (bsr pending)"
      and safe: "\<not> IsSignalTooDangerousToIgnore (int (bsr pending) + 1)" by auto
    let ?p = "pending AND NOT (push_bit (bsr pending) 1)"
    have p2: "\<forall>j. bit ?p j \<longrightarrow>
                bit (sigmask m) j \<and> \<not> IsSignalTooDangerousToIgnore (int j + 1)"
      using "1.prems" by (auto simp: bit_simps)
    have um: "\<not> (NOT (sigmask m) AND push_bit (nat (int (bsr pending) + 1 - 1)) 1 \<noteq> 0)"
      using masked lt by (simp add: unmasked_iff)
    have "ConsumeSignalLoop lay m d r pending = ConsumeSignalLoop lay m d r ?p"
      using masked safe by (simp add: ConsumeSignalLoop_unfold [OF nz])
    also have "\<dots> = Consumed 0 d r m"
      using "1.IH"[OF nz refl um safe] p2 by simp
    finally show ?thesis .
  qed
qed
lemma DeliverSignal_total:
  assumes "static_asserts lay"
  shows "(\<exists>m'. DeliverSignal lay m sig code = Delivered m' \<and> gstack_ok m (frame_sp lay m sig)) \<or>
         (DeliverSignal lay m sig code = Terminated SIGSEGV_LINUX \<and> \<not> gstack_ok m (frame_sp lay m sig))"
  using assms rounded_frame_sp[of "sizeof_SignalFrame lay"]
  by (simp add: DeliverSignal_def Let_def static_asserts_def frame_sp_def CopyToUserWrite_frame_def)

lemma DeliverSignal_Delivered:
  assumes "DeliverSignal lay m sig code = Delivered m'"
  shows "sp m' AND 15 = 8"
    and "sp m' = frame_sp lay m sig"
    and "di m' = word_of_int sig"
    and "si m' = sp m' + of_nat (offsetof_si lay)"
    and "dx m' = sp m' + of_nat (offsetof_uc lay)"
    and "ip m' = handler (hands (system m) (nat (sig - 1)))"
  using assms
  by (auto simp: DeliverSignal_def Let_def CopyToUserWrite_frame_def frame_sp_def split: if_splits option.splits)

lemma DeliverSignal_frame:
  assumes "DeliverSignal lay m sig code = Delivered m'"
  shows "\<exists>f. gframes m' (sp m') = Some f \<and> 
          uc_sigmask f = sigmask m \<and> uc_rip f = ip m \<and> uc_eflags f = rflags m \<and>
          [uc_r8 f, uc_r9 f, uc_r10 f, uc_r11 f, uc_r12 f, uc_r13 f, uc_r14 f, uc_r15 f,
           uc_rdi f, uc_rsi f, uc_rbp f, uc_rbx f, uc_rdx f, uc_rax f, uc_rcx f, uc_rsp f] =
          [r8 m, r9 m, r10 m, r11 m, r12 m, r13 m, r14 m, r15 m,
           di m, si m, bp m, bx m, dx m, ax m, cx m, sp m] \<and>
          (fp_cwd f, fp_swd f, fp_ftw f, fp_fop f, fp_rip f, fp_rdp f, fp_st f) =
          (fpu_cw m, fpu_sw m, fpu_tw m, fpu_op m, fpu_ip m, fpu_dp m, fpu_st m) \<and>
          fp_xmm f = xmm m \<and> ret f = restorer (hands (system m) (nat (sig - 1)))"
  using assms
  by (auto simp: DeliverSignal_def Let_def CopyToUserWrite_frame_def split: if_splits option.splits)

lemma SigRestore_after_DeliverSignal:
  assumes "DeliverSignal lay m sig code = Delivered m1"
    and "sp m2 = sp m1 + 8"
    and "gframes m2 (sp m1) = gframes m1 (sp m1)"
  shows "registers (SigRestore sf0 m2) = registers m"
    and "\<exists>f. gframes m1 (sp m1) = Some f \<and> sigmask (SigRestore sf0 m2) = uc_sigmask f \<and> uc_sigmask f = sigmask m"
    and "restored (SigRestore sf0 m2)"
proof -
  from DeliverSignal_frame[OF assms(1)] obtain f where f: "gframes m1 (sp m1) = Some f"
    and s: "uc_sigmask f = sigmask m" "uc_rip f = ip m" "uc_eflags f = rflags m"
    and g: "[uc_r8 f, uc_r9 f, uc_r10 f, uc_r11 f, uc_r12 f, uc_r13 f, uc_r14 f, uc_r15 f,
           uc_rdi f, uc_rsi f, uc_rbp f, uc_rbx f, uc_rdx f, uc_rax f, uc_rcx f, uc_rsp f] =
          [r8 m, r9 m, r10 m, r11 m, r12 m, r13 m, r14 m, r15 m,
           di m, si m, bp m, bx m, dx m, ax m, cx m, sp m]"
    and x: "(fp_cwd f, fp_swd f, fp_ftw f, fp_fop f, fp_rip f, fp_rdp f, fp_st f) =
          (fpu_cw m, fpu_sw m, fpu_tw m, fpu_op m, fpu_ip m, fpu_dp m, fpu_st m)"
          "fp_xmm f = xmm m"
    by blast
  have r: "CopyFromUserRead_frame m2 sf0 (sp m2 - 8) = f"
    using f assms(2,3) by (simp add: CopyFromUserRead_frame_def)
  show "registers (SigRestore sf0 m2) = registers m"
    using s g x by (simp add: SigRestore_def r registers_def)
  show "\<exists>f. gframes m1 (sp m1) = Some f \<and> sigmask (SigRestore sf0 m2) = uc_sigmask f \<and> uc_sigmask f = sigmask m"
    using f s by (simp add: SigRestore_def r)
  show "restored (SigRestore sf0 m2)"
    by (simp add: SigRestore_def Let_def)
qed

subsection \<open>Claim C7\<close>

text \<open>
  C7. For every machine state and signal \<open>sig\<close> (from 1 to 64), \<open>DeliverSignal\<close> either
  ends in a terminal \<open>SIGSEGV\<close>, when the frame cannot be written, or returns with a new
  stack pointer \<open>sp\<close> such that \<open>(sp & 15) == 8\<close>, and with \<open>rsp = sp\<close>, \<open>rdi = sig\<close>,
  \<open>rsi\<close> the address of the \<open>siginfo\<close> inside the frame, \<open>rdx\<close> the address of the
  \<open>ucontext\<close> inside the frame, and \<open>rip\<close> the registered handler. The layout is any
  that passes the \<open>_Static_assert\<close> on the size of the frame; the \<open>unassert\<close> on the
  stack pointer never fails.
\<close>

theorem DeliverSignal_frame_and_registers:
  assumes "static_asserts lay" and "1 \<le> sig" and "sig \<le> 64"
  shows "(\<exists>m'. DeliverSignal lay m sig code = Delivered m' \<and>
            sp m' AND 15 = 8 \<and> sp m' = frame_sp lay m sig \<and>
            di m' = word_of_int sig \<and>
            si m' = sp m' + of_nat (offsetof_si lay) \<and>
            dx m' = sp m' + of_nat (offsetof_uc lay) \<and>
            ip m' = handler (hands (system m) (nat (sig - 1)))) \<or>
         (DeliverSignal lay m sig code = Terminated SIGSEGV_LINUX \<and>
            \<not> gstack_ok m (frame_sp lay m sig))"
  using DeliverSignal_total [OF assms(1), of m sig code] DeliverSignal_Delivered [of lay m sig code]
  by blast


theorem DeliverSignal_frame_and_registers_witness:
  "static_asserts layout0 \<and> (1::int) \<le> 10 \<and> (10::int) \<le> 64 \<and>
   (\<exists>m'. DeliverSignal layout0 machine1 10 0 = Delivered m' \<and>
            sp m' AND 15 = 8 \<and> sp m' = 0x7bb8 \<and>
            di m' = 10 \<and> si m' = 0x7bc0 \<and> dx m' = 0x7c40 \<and> ip m' = 0x401000)"
proof -
  have sa: "static_asserts layout0" by (simp add: static_asserts_def layout0_def)
  have fsp: "frame_sp layout0 machine1 10 = 0x7bb8"
    by (simp add: frame_sp_def layout0_def machine1_def machine0_def SA_ONSTACK_LINUX_def kRedzoneSize_def)
  have ok: "gstack_ok machine1 0x7bb8" by (simp add: machine1_def machine0_def)
  have h: "handler (hands (system machine1) (nat (10 - 1))) = 0x401000"
    by (simp add: machine1_def)
  from DeliverSignal_frame_and_registers [OF sa, of 10 machine1 0] ok show ?thesis
    unfolding fsp h by (auto simp: layout0_def static_asserts_def)
qed

subsection \<open>Claim C6\<close>

text \<open>
  C6. \<open>DeliverSignal(m, sig, code)\<close> followed by \<open>SigRestore\<close> leaves every guest
  register (the general registers, \<open>rip\<close>, the flags, the FPU state and the XMM
  registers) equal to its value before delivery, and \<open>sigmask\<close> equal to the value saved
  in the frame, which is the mask before delivery. Between the two, the guest runs the
  handler and returns through the trampoline: \<open>m2\<close> is any machine whose stack pointer
  is 8 above the frame (the return popped the frame's \<open>ret\<close>) and whose memory still
  holds the frame as \<open>DeliverSignal\<close> wrote it. \<open>sf0\<close> is what the local frame of
  \<open>SigRestore\<close> holds before the copy.
\<close>

theorem DeliverSignal_SigRestore_roundtrip:
  assumes "1 \<le> sig" and "sig \<le> 64"
    and "DeliverSignal lay m sig code = Delivered m1"
    and "sp m2 = sp m1 + 8"
    and "gframes m2 (sp m1) = gframes m1 (sp m1)"
  shows "registers (SigRestore sf0 m2) = registers m \<and>
         (\<exists>f. gframes m1 (sp m1) = Some f \<and> sigmask (SigRestore sf0 m2) = uc_sigmask f \<and>
              uc_sigmask f = sigmask m) \<and>
         restored (SigRestore sf0 m2)"
  using SigRestore_after_DeliverSignal [OF assms(3,4,5)] by blast

theorem DeliverSignal_SigRestore_roundtrip_witness:
  "\<exists>m1. DeliverSignal layout0 machine1 10 0 = Delivered m1 \<and>
     registers (SigRestore zero_SignalFrame (m1 \<lparr> ip := 0x402000, sp := sp m1 + 8 \<rparr>)) = registers machine1 \<and>
     sigmask (SigRestore zero_SignalFrame (m1 \<lparr> ip := 0x402000, sp := sp m1 + 8 \<rparr>)) = sigmask machine1"
proof -
  have sa: "static_asserts layout0" by (simp add: static_asserts_def layout0_def)
  have fsp: "frame_sp layout0 machine1 10 = 0x7bb8"
    by (simp add: frame_sp_def layout0_def machine1_def machine0_def SA_ONSTACK_LINUX_def kRedzoneSize_def)
  have ok: "gstack_ok machine1 0x7bb8" by (simp add: machine1_def machine0_def)
  from DeliverSignal_total [OF sa, of machine1 10 0] ok obtain m1 where
    d: "DeliverSignal layout0 machine1 10 0 = Delivered m1"
    unfolding fsp by auto
  let ?m2 = "m1 \<lparr> ip := 0x402000, sp := sp m1 + 8 \<rparr>"
  from DeliverSignal_SigRestore_roundtrip [of 10 layout0 machine1 0 m1 ?m2 zero_SignalFrame] d
  show ?thesis by auto
qed

subsection \<open>Claim C5\<close>

text \<open>
  C5, as amended. In metal mode \<open>ConsumeSignal\<close> returns 0 at once, for every machine:
  it looks at no signal, changes nothing in the machine and writes nothing through
  \<open>delivered\<close> and \<open>restart\<close>. Otherwise it is \<open>ConsumeSignalImpl\<close>, which sets
  \<open>*delivered\<close> to 0 and \<open>*restart\<close> to true and, for every machine, looks at the
  pending signals from the highest bit to the lowest, passing over those that are masked
  and not too dangerous to ignore. For the first signal \<open>sig\<close> it does not pass over:
  when \<open>sig\<close> is not masked and its handler is \<open>SIG_DFL\<close>, the call drops the signal and
  returns 0 exactly when \<open>sig\<close> is one of \<open>URG\<close>, \<open>CONT\<close>, \<open>CHLD\<close>, \<open>WINCH\<close>, and
  returns \<open>sig\<close> otherwise; when \<open>sig\<close> is not masked and its handler is \<open>SIG_IGN\<close>, it
  drops the signal and returns 0 except for \<open>FPE\<close>, \<open>ILL\<close>, \<open>SEGV\<close>, for which it
  returns \<open>sig\<close>; when \<open>sig\<close> is masked and one of \<open>FPE\<close>, \<open>ILL\<close>, \<open>SEGV\<close>, it returns
  \<open>sig\<close> and leaves it pending. When it passes over every pending signal it returns 0
  and the machine is as before. Signals below the first one that is not passed over are
  not looked at.
\<close>

theorem ConsumeSignal_metal_or_first_signal_policy:
  "(metal m \<longrightarrow> ConsumeSignal lay m d r = Consumed 0 d r m) \<and>
   (\<not> metal m \<longrightarrow> ConsumeSignal lay m d r = ConsumeSignalImpl lay m d r) \<and>
   (1 \<le> sig \<and> sig \<le> 64 \<and> bit (signals m) (nat (sig - 1)) \<and>
    (\<forall>j. nat (sig - 1) < j \<and> bit (signals m) j \<longrightarrow>
           bit (sigmask m) j \<and> \<not> IsSignalTooDangerousToIgnore (int j + 1)) \<longrightarrow>
      (\<not> bit (sigmask m) (nat (sig - 1)) \<and>
       handler (hands (system m) (nat (sig - 1))) = SIG_DFL_LINUX \<longrightarrow>
         ConsumeSignalImpl lay m d r =
           Consumed (if sig \<in> {SIGURG_LINUX, SIGCONT_LINUX, SIGCHLD_LINUX, SIGWINCH_LINUX}
                     then 0 else sig)
             (map_option (\<lambda>_. 0) d) (map_option (\<lambda>_. True) r)
             (m \<lparr> signals := signals m AND NOT (push_bit (nat (sig - 1)) 1) \<rparr>)) \<and>
      (\<not> bit (sigmask m) (nat (sig - 1)) \<and>
       handler (hands (system m) (nat (sig - 1))) = SIG_IGN_LINUX \<longrightarrow>
         ConsumeSignalImpl lay m d r =
           Consumed (if sig \<in> {SIGFPE_LINUX, SIGILL_LINUX, SIGSEGV_LINUX} then sig else 0)
             (map_option (\<lambda>_. 0) d) (map_option (\<lambda>_. True) r)
             (m \<lparr> signals := signals m AND NOT (push_bit (nat (sig - 1)) 1) \<rparr>)) \<and>
      (bit (sigmask m) (nat (sig - 1)) \<and>
       sig \<in> {SIGFPE_LINUX, SIGILL_LINUX, SIGSEGV_LINUX} \<longrightarrow>
         ConsumeSignalImpl lay m d r =
           Consumed sig (map_option (\<lambda>_. 0) d) (map_option (\<lambda>_. True) r) m)) \<and>
   ((\<forall>j. bit (signals m) j \<longrightarrow>
          bit (sigmask m) j \<and> \<not> IsSignalTooDangerousToIgnore (int j + 1)) \<longrightarrow>
      ConsumeSignalImpl lay m d r =
        Consumed 0 (map_option (\<lambda>_. 0) d) (map_option (\<lambda>_. True) r) m)"
proof (intro conjI impI)
  assume "metal m"
  then show "ConsumeSignal lay m d r = Consumed 0 d r m"
    by (simp add: ConsumeSignal_def)
next
  assume "\<not> metal m"
  then show "ConsumeSignal lay m d r = ConsumeSignalImpl lay m d r"
    by (simp add: ConsumeSignal_def)
next
  assume "\<forall>j. bit (signals m) j \<longrightarrow>
          bit (sigmask m) j \<and> \<not> IsSignalTooDangerousToIgnore (int j + 1)"
  then show "ConsumeSignalImpl lay m d r =
        Consumed 0 (map_option (\<lambda>_. 0) d) (map_option (\<lambda>_. True) r) m"
    unfolding ConsumeSignalImpl_def by (rule ConsumeSignalLoop_none)
next
  assume a: "1 \<le> sig \<and> sig \<le> 64 \<and> bit (signals m) (nat (sig - 1)) \<and>
    (\<forall>j. nat (sig - 1) < j \<and> bit (signals m) j \<longrightarrow>
           bit (sigmask m) j \<and> \<not> IsSignalTooDangerousToIgnore (int j + 1))"
  then have s: "int (nat (sig - 1)) + 1 = sig" by simp
  have ne: "SIG_IGN_LINUX \<noteq> SIG_DFL_LINUX"
    by (simp add: SIG_IGN_LINUX_def SIG_DFL_LINUX_def)
  have loop: "ConsumeSignalImpl lay m d r =
      consume_step lay m (map_option (\<lambda>_. 0) d) (map_option (\<lambda>_. True) r) sig"
    if "bit (sigmask m) (nat (sig - 1)) \<longrightarrow> IsSignalTooDangerousToIgnore sig"
    using ConsumeSignalLoop_first [of "signals m" "nat (sig - 1)" m lay] a that
    unfolding s by (simp add: ConsumeSignalImpl_def)
  {
    assume "\<not> bit (sigmask m) (nat (sig - 1)) \<and>
       handler (hands (system m) (nat (sig - 1))) = SIG_DFL_LINUX"
    then show "ConsumeSignalImpl lay m d r =
           Consumed (if sig \<in> {SIGURG_LINUX, SIGCONT_LINUX, SIGCHLD_LINUX, SIGWINCH_LINUX}
                     then 0 else sig)
             (map_option (\<lambda>_. 0) d) (map_option (\<lambda>_. True) r)
             (m \<lparr> signals := signals m AND NOT (push_bit (nat (sig - 1)) 1) \<rparr>)"
      by (simp add: loop consume_step_def Let_def IsSignalIgnoredByDefault_def)
  next
    assume "\<not> bit (sigmask m) (nat (sig - 1)) \<and>
       handler (hands (system m) (nat (sig - 1))) = SIG_IGN_LINUX"
    then show "ConsumeSignalImpl lay m d r =
           Consumed (if sig \<in> {SIGFPE_LINUX, SIGILL_LINUX, SIGSEGV_LINUX} then sig else 0)
             (map_option (\<lambda>_. 0) d) (map_option (\<lambda>_. True) r)
             (m \<lparr> signals := signals m AND NOT (push_bit (nat (sig - 1)) 1) \<rparr>)"
      using ne by (simp add: loop consume_step_def Let_def IsSignalTooDangerousToIgnore_def)
  next
    assume "bit (sigmask m) (nat (sig - 1)) \<and>
       sig \<in> {SIGFPE_LINUX, SIGILL_LINUX, SIGSEGV_LINUX}"
    then show "ConsumeSignalImpl lay m d r =
           Consumed sig (map_option (\<lambda>_. 0) d) (map_option (\<lambda>_. True) r) m"
      by (auto simp: loop consume_step_def IsSignalTooDangerousToIgnore_def)
  }
qed

lemma bit_0x400: "bit (0x400 :: u64) j = (j = 10)"
proof -
  have "(0x400 :: u64) = 2 ^ 10" by simp
  then show ?thesis by (simp only: bit_exp_iff) auto
qed

lemma bit_0x10400: "bit (0x10400 :: u64) j = (j = 10 \<or> j = 16)"
proof -
  have "(0x10400 :: u64) = 2 ^ 10 OR 2 ^ 16" by simp
  then show ?thesis by (simp only: bit_or_iff bit_exp_iff) auto
qed

theorem ConsumeSignal_metal_or_first_signal_policy_witness:
  "ConsumeSignal layout0 machine0 (Some 7) (Some False) =
     Consumed 11 (Some 0) (Some True) (machine0 \<lparr> signals := 0 \<rparr>) \<and>
   ConsumeSignal layout0 (machine0 \<lparr> sigmask := 0x400 \<rparr>) (Some 7) None =
     Consumed 11 (Some 0) None (machine0 \<lparr> sigmask := 0x400 \<rparr>) \<and>
   ConsumeSignal layout0 (machine0 \<lparr> signals := 0 \<rparr>) None (Some False) =
     Consumed 0 None (Some True) (machine0 \<lparr> signals := 0 \<rparr>) \<and>
   ConsumeSignal layout0 (machine0 \<lparr> metal := True \<rparr>) (Some 7) (Some False) =
     Consumed 0 (Some 7) (Some False) (machine0 \<lparr> metal := True \<rparr>)"
proof -
  have a: "\<not> bit (sigmask machine0) j" for j
    by (simp add: machine0_def)
  have sg: "signals machine0 = 0x400" by (simp add: machine0_def)
  have b: "bit (signals machine0) j = (j = 10)" for j
    by (simp only: sg bit_0x400)
  have h: "handler (hands (system machine0) j) = SIG_DFL_LINUX" for j
    by (simp add: machine0_def SIG_DFL_LINUX_def)
  have nm: "\<not> metal machine0" by (simp add: machine0_def)
  have z: "signals machine0 AND NOT (push_bit (nat (11 - 1)) 1) = 0"
    by (simp add: machine0_def)
  from ConsumeSignal_metal_or_first_signal_policy [of machine0 layout0 "Some 7" "Some False" 11]
    a b h nm
  have 1: "ConsumeSignal layout0 machine0 (Some 7) (Some False) =
      Consumed 11 (Some 0) (Some True) (machine0 \<lparr> signals := 0 \<rparr>)"
    unfolding z
    by (simp add: SIGURG_LINUX_def SIGCONT_LINUX_def SIGCHLD_LINUX_def SIGWINCH_LINUX_def)
  let ?m = "machine0 \<lparr> sigmask := 0x400 \<rparr>"
  have sm': "sigmask ?m = 0x400" by simp
  have a': "bit (sigmask ?m) j = (j = 10)" for j
    by (simp only: sm' bit_0x400)
  have sg': "signals ?m = 0x400" by (simp add: machine0_def)
  have b': "bit (signals ?m) j = (j = 10)" for j
    by (simp only: sg' bit_0x400)
  have nm': "\<not> metal ?m" by (simp add: machine0_def)
  from ConsumeSignal_metal_or_first_signal_policy [of ?m layout0 "Some 7" None 11] a' b' nm'
  have 2: "ConsumeSignal layout0 ?m (Some 7) None = Consumed 11 (Some 0) None ?m"
    by (simp add: SIGFPE_LINUX_def SIGILL_LINUX_def SIGSEGV_LINUX_def)
  let ?n = "machine0 \<lparr> signals := 0 \<rparr>"
  have b'': "\<not> bit (signals ?n) j" for j
    by simp
  have nm'': "\<not> metal ?n" by (simp add: machine0_def)
  from ConsumeSignal_metal_or_first_signal_policy [of ?n layout0 None "Some False" 1] b'' nm''
  have 3: "ConsumeSignal layout0 ?n None (Some False) = Consumed 0 None (Some True) ?n"
    by simp
  let ?k = "machine0 \<lparr> metal := True \<rparr>"
  from ConsumeSignal_metal_or_first_signal_policy [of ?k layout0 "Some 7" "Some False" 1]
  have 4: "ConsumeSignal layout0 ?k (Some 7) (Some False) = Consumed 0 (Some 7) (Some False) ?k"
    by simp
  from 1 2 3 4 show ?thesis by simp
qed

text \<open>
  The claim as written fails twice. In metal mode, for every machine state,
  \<open>ConsumeSignal\<close> returns 0 at once: here with an unmasked \<open>SIGSEGV\<close> pending whose
  handler is \<open>SIG_DFL\<close>, which stays pending, and with \<open>*delivered\<close> and \<open>*restart\<close>
  as the caller left them. And a pending signal that is masked and too dangerous to
  ignore is returned only when the loop reaches it: here \<open>SIGSEGV\<close> (11) is pending and
  masked below \<open>SIGCHLD\<close> (17), which is pending, not masked, and has the handler
  \<open>SIG_DFL\<close>; the call drops \<open>SIGCHLD\<close> and returns 0, and \<open>SIGSEGV\<close> stays pending.
\<close>

theorem ConsumeSignal_metal_and_masked_counterexample:
  "bit (signals (machine0 \<lparr> metal := True \<rparr>)) 10 \<and>
   \<not> bit (sigmask (machine0 \<lparr> metal := True \<rparr>)) 10 \<and>
   handler (hands (system (machine0 \<lparr> metal := True \<rparr>)) 10) = SIG_DFL_LINUX \<and>
   SIGSEGV_LINUX = 11 \<and> SIGCHLD_LINUX = 17 \<and>
   SIGSEGV_LINUX \<notin> {SIGURG_LINUX, SIGCONT_LINUX, SIGCHLD_LINUX, SIGWINCH_LINUX} \<and>
   ConsumeSignal layout0 (machine0 \<lparr> metal := True \<rparr>) (Some 7) (Some False) =
     Consumed 0 (Some 7) (Some False) (machine0 \<lparr> metal := True \<rparr>) \<and>
   \<not> metal (machine0 \<lparr> signals := 0x10400, sigmask := 0x400 \<rparr>) \<and>
   bit (signals (machine0 \<lparr> signals := 0x10400, sigmask := 0x400 \<rparr>)) 10 \<and>
   bit (sigmask (machine0 \<lparr> signals := 0x10400, sigmask := 0x400 \<rparr>)) 10 \<and>
   ConsumeSignal layout0 (machine0 \<lparr> signals := 0x10400, sigmask := 0x400 \<rparr>)
       (Some 7) (Some False) =
     Consumed 0 (Some 0) (Some True) (machine0 \<lparr> signals := 0x400, sigmask := 0x400 \<rparr>)"
proof -
  let ?m = "machine0 \<lparr> metal := True \<rparr>"
  have sg: "signals ?m = 0x400" by (simp add: machine0_def)
  have sm: "sigmask ?m = 0" by (simp add: machine0_def)
  have 1: "bit (signals ?m) 10" by (simp only: sg bit_0x400)
  have 2: "\<not> bit (sigmask ?m) 10" by (simp only: sm) simp
  have 3: "handler (hands (system ?m) 10) = SIG_DFL_LINUX"
    by (simp add: machine0_def SIG_DFL_LINUX_def)
  have 4: "SIGSEGV_LINUX = 11 \<and> SIGCHLD_LINUX = 17 \<and>
           SIGSEGV_LINUX \<notin> {SIGURG_LINUX, SIGCONT_LINUX, SIGCHLD_LINUX, SIGWINCH_LINUX}"
    by (simp add: SIGSEGV_LINUX_def SIGURG_LINUX_def SIGCONT_LINUX_def SIGCHLD_LINUX_def
          SIGWINCH_LINUX_def)
  have 5: "ConsumeSignal layout0 ?m (Some 7) (Some False) = Consumed 0 (Some 7) (Some False) ?m"
    by (simp add: ConsumeSignal_def)
  let ?n = "machine0 \<lparr> signals := 0x10400, sigmask := 0x400 \<rparr>"
  have sg': "signals ?n = 0x10400" by simp
  have sm': "sigmask ?n = 0x400" by simp
  have 6: "\<not> metal ?n" by (simp add: machine0_def)
  have 7: "bit (signals ?n) 10" by (simp only: sg' bit_0x10400) simp
  have 8: "bit (sigmask ?n) 10" by (simp only: sm' bit_0x400)
  have f1: "bit (signals ?n) 16" by (simp only: sg' bit_0x10400) simp
  have f2: "\<forall>j. 16 < j \<and> bit (signals ?n) j \<longrightarrow>
      bit (sigmask ?n) j \<and> \<not> IsSignalTooDangerousToIgnore (int j + 1)"
    by (simp only: sg' bit_0x10400) auto
  have f3: "bit (sigmask ?n) 16 \<longrightarrow> IsSignalTooDangerousToIgnore (int 16 + 1)"
    by (simp only: sm' bit_0x400) simp
  have cl: "signals ?n AND NOT (push_bit (nat (17 - 1)) 1) = 0x400"
    by simp
  have "ConsumeSignal layout0 ?n (Some 7) (Some False) =
      consume_step layout0 ?n (Some 0) (Some True) 17"
    using ConsumeSignalLoop_first [OF f1 f2 f3, of layout0 "Some 0" "Some True"] 6
    by (simp add: ConsumeSignal_def ConsumeSignalImpl_def)
  also have "\<dots> = Consumed 0 (Some 0) (Some True) (?n \<lparr> signals := 0x400 \<rparr>)"
    using f3
    by (simp add: consume_step_def Let_def cl sm' bit_0x400 IsSignalIgnoredByDefault_def
        SIGCHLD_LINUX_def) (simp add: machine0_def SIG_DFL_LINUX_def)
  finally have 9: "ConsumeSignal layout0 ?n (Some 7) (Some False) =
      Consumed 0 (Some 0) (Some True) (machine0 \<lparr> signals := 0x400, sigmask := 0x400 \<rparr>)"
    by simp
  from 1 2 3 4 5 6 7 8 9 show ?thesis by blast
qed

section \<open>The page table\<close>

subsection \<open>Walks\<close>

text \<open>
  The index that the code takes from the unsigned sum \<open>virt + got\<close> is the index of
  the model.
\<close>
lemma pml4_index_unsigned:
  assumes "level + 9 \<le> 64"
  shows "nat (((x mod 2 ^ 64) div 2 ^ level) mod 512) = pml4_index x level"
proof -
  have "take_bit 9 (drop_bit level (take_bit 64 x)) = take_bit 9 (drop_bit level x)"
    using assms by (auto simp: drop_bit_take_bit min_def)
  then have "((x mod 2 ^ 64) div 2 ^ level) mod 2 ^ 9 = (x div 2 ^ level) mod 2 ^ 9"
    by (simp only: take_bit_eq_mod drop_bit_eq_div)
  then show ?thesis
    by (simp add: pml4_index_def)
qed






lemma walk_from_cr3_levels:
  "walk_from_cr3 s virt =
     (let mi39 = (GetPageAddress (cr3 s), pml4_index virt 39); pt39 = Load64 s mi39 in
      if pt39 AND PAGE_V = 0 then (mi39, pt39, 39)
      else
        (let mi30 = (GetPageAddress pt39, pml4_index virt 30); pt30 = Load64 s mi30 in
         if pt30 AND PAGE_V = 0 then (mi30, pt30, 30)
         else
           (let mi21 = (GetPageAddress pt30, pml4_index virt 21); pt21 = Load64 s mi21 in
            if pt21 AND PAGE_V = 0 then (mi21, pt21, 21)
            else
              (let mi12 = (GetPageAddress pt21, pml4_index virt 12) in
               (mi12, Load64 s mi12, 12)))))"
  by (simp add: walk_from_cr3_def numeral_3_eq_3 Let_def)

lemma walk_system1_mapped: "walk_from_cr3 system1 0x10000 = ((0x4000, 16), 0x10C07, 12)"
  by (simp add: walk_from_cr3_levels Let_def pml4_index_def Load64_def GetPageAddress_def PAGE_TA_def PAGE_V_def system1_def system0_def)





subsection \<open>Claim C4\<close>



subsection \<open>Evaluating the crawls on \<open>system1\<close>\<close>

lemma descend_levels:
  "descend s 3 pt virt =
     (let pt39 = Load64 s (GetPageAddress pt, pml4_index virt 39) in
      if pt39 AND PAGE_V = 0 then None
      else
        (let pt30 = Load64 s (GetPageAddress pt39, pml4_index virt 30) in
         if pt30 AND PAGE_V = 0 then None
         else
           (let pt21 = Load64 s (GetPageAddress pt30, pml4_index virt 21) in
            if pt21 AND PAGE_V = 0 then None
            else Some (GetPageAddress pt21, pml4_index virt 12))))"
  by (simp add: numeral_3_eq_3 Let_def)

lemma descend_system1: "descend system1 3 (cr3 system1) 0x10000 = Some (0x4000, 16)"
  by (simp add: descend_levels Let_def pml4_index_def Load64_def GetPageAddress_def PAGE_TA_def PAGE_V_def system1_def system0_def)

lemma IsFullyMapped_system1: "IsFullyMapped system1 0x10000 4096"
  unfolding IsFullyMapped_def
  apply (subst IsFullyMapped_crawl.simps)
  apply (simp add: descend_system1)
  apply (subst IsFullyMapped_leaves.simps)
  apply (simp add: Load64_def system1_def PAGE_V_def)
  done

lemma sysprot_config0: "ProtectVirtual_sysprot config0 0x10000 4096 0 = 0"
  by (simp add: ProtectVirtual_sysprot_def config0_def PROT_EXEC_def)

lemma entry_system1:
  "ProtectVirtual_entry config0 memhost0 (SetProtection 0) 0 0x11000
     \<lparr> pa_sys = system1, pa_ranges = [], pa_rc = 0 \<rparr> (0x4000, 16) 0x10000 =
   Some \<lparr> pa_sys = Store64 (system1 \<lparr> tick := 1 \<rparr>) (0x4000, 16)
                     ((0x10C07 AND NOT (PAGE_U OR PAGE_RW OR PAGE_XD)) OR SetProtection 0),
          pa_ranges = [(0x10000, 0x11000)], pa_rc = 0 \<rparr>"
  apply (simp add: ProtectVirtual_entry_def Let_def)
  apply (simp add: Load64_def system1_def PAGE_V_def PAGE_HOST_def PAGE_MAP_def PAGE_MUG_def config0_def AddPageToRanges_def memhost0_def system0_def)
  done

subsection \<open>Claim C3\<close>

text \<open>
  C3 says that in linear mode the protection given to the host is widened to
  \<open>PROT_READ|PROT_WRITE\<close> when either \<open>virt\<close> or \<open>size\<close> is not a multiple of the
  host page size. The code widens only when both are not. With 64 KiB host pages,
  \<open>ProtectVirtual(0x10000, 4096, PROT_NONE)\<close> on a mapped page, whose \<open>virt\<close> is a
  multiple of the host page size and whose \<open>size\<close> is not, gives the host
  \<open>mprotect(0x10000, 4096, 0)\<close>: the case of the guard page at the bottom of a 64 KiB
  stack that the comment in the code describes.
\<close>

theorem ProtectVirtual_unaligned_size_not_widened:
  "linear config0 \<and> pagesize config0 = 65536 \<and>
   IsValidAddrSize 0x10000 4096 \<and> IsFullyMapped system1 0x10000 4096 \<and>
   (0x10000 :: int) mod 65536 = 0 \<and> (4096 :: int) mod 65536 \<noteq> 0 \<and>
   PROT_READ OR PROT_WRITE = 3 \<and>
   ProtectVirtual_sysprot config0 0x10000 4096 0 = 0 \<and>
   (case ProtectVirtual config0 memhost0 system1 0x10000 4096 0 of
      Returns rc e s' \<Rightarrow> rc = 0 \<and> hostlog s' = [HostMprotect 0x10000 4096 0]
    | Aborts \<Rightarrow> False)"
proof -
  have crawl: "ProtectVirtual_crawl config0 memhost0 (SetProtection 0) 0 0x11000
                 \<lparr> pa_sys = system1, pa_ranges = [], pa_rc = 0 \<rparr> 0x10000 =
               Some \<lparr> pa_sys = Store64 (system1 \<lparr> tick := 1 \<rparr>) (0x4000, 16)
                     ((0x10C07 AND NOT (PAGE_U OR PAGE_RW OR PAGE_XD)) OR SetProtection 0),
                      pa_ranges = [(0x10000, 0x11000)], pa_rc = 0 \<rparr>"
    apply (subst ProtectVirtual_crawl.simps)
    apply (simp add: descend_system1)
    apply (subst ProtectVirtual_leaves.simps)
    apply (simp add: entry_system1)
    done
  have v: "IsValidAddrSize 0x10000 4096"
    by (simp add: IsValidAddrSize_def)
  have "case ProtectVirtual config0 memhost0 system1 0x10000 4096 0 of
      Returns rc e s' \<Rightarrow> rc = 0 \<and> hostlog s' = [HostMprotect 0x10000 4096 0]
    | Aborts \<Rightarrow> False"
    apply (simp add: ProtectVirtual_def v IsFullyMapped_system1 sysprot_config0 crawl Let_def)
    apply (simp add: config0_def memhost0_def Store64_def system1_def system0_def)
    done
  then show ?thesis
    using v IsFullyMapped_system1 sysprot_config0
    by (simp add: config0_def PROT_READ_def PROT_WRITE_def)
qed

subsection \<open>\<open>ReserveVirtual\<close> maps every page\<close>

lemma grows_Load64:
  "grows s s' \<Longrightarrow> Load64 s k AND PAGE_V \<noteq> 0 \<Longrightarrow> Load64 s' k = Load64 s k"
  unfolding grows_def by blast

lemma grows_refl: "grows s s"
  by (simp add: grows_def)

lemma grows_trans: "grows s s1 \<Longrightarrow> grows s1 s2 \<Longrightarrow> grows s s2"
  by (simp add: grows_def)

lemma grows_same_mem: "mem s' = mem s \<Longrightarrow> cr3 s' = cr3 s \<Longrightarrow> grows s s'"
  by (simp add: grows_def Load64_def)

lemma Load64_Store64: "Load64 (Store64 s mi x) k = (if k = mi then x else Load64 s k)"
  by (cases mi; cases k) (auto simp: Load64_def Store64_def)

lemma cr3_Store64: "cr3 (Store64 s mi x) = cr3 s"
  by (simp add: Store64_def)

lemma grows_Store64: "Load64 s mi AND PAGE_V = 0 \<Longrightarrow> grows s (Store64 s mi x)"
  by (auto simp: grows_def Load64_Store64 cr3_Store64)

lemma grows_descend:
  "grows s s' \<Longrightarrow> descend s n pt v = Some mi \<Longrightarrow> descend s' n pt v = Some mi"
proof (induction n arbitrary: pt)
  case 0
  then show ?case by simp
next
  case (Suc n)
  let ?k = "(GetPageAddress pt, pml4_index v (21 + 9 * n))"
  from Suc.prems(2) have v: "Load64 s ?k AND PAGE_V \<noteq> 0"
    and d: "descend s n (Load64 s ?k) v = Some mi"
    by (auto simp: Let_def split: if_splits)
  from grows_Load64 [OF Suc.prems(1) v] have e: "Load64 s' ?k = Load64 s ?k" .
  from Suc.IH [OF Suc.prems(1) d] v e show ?case
    by (simp add: Let_def)
qed

lemma AllocatePage_mem:
  "AllocatePage h s = Some (e, s') \<Longrightarrow> mem s' = mem s \<and> cr3 s' = cr3 s"
  by (auto simp: AllocatePage_def Let_def split: list.splits option.splits if_splits)

lemma AllocatePage_valid:
  "AllocatePage h s = Some (e, s') \<Longrightarrow> e \<noteq> - 1 \<Longrightarrow> bit e 0 \<and> bit e 1"
  by (auto simp: AllocatePage_def Let_def PAGE_V_def PAGE_RW_def bit_simps split: list.splits option.splits if_splits)

lemma AllocatePageTable_mem:
  "AllocatePageTable h s = Some (e, s') \<Longrightarrow> mem s' = mem s \<and> cr3 s' = cr3 s"
  by (auto simp: AllocatePageTable_def dest: AllocatePage_mem split: option.splits prod.splits if_splits)

lemma valid_iff: "(e AND PAGE_V \<noteq> 0) = bit e 0"
proof -
  have "(e AND PAGE_V \<noteq> 0) = (e AND push_bit 0 1 \<noteq> 0)"
    by (simp add: PAGE_V_def)
  also have "\<dots> = bit e 0"
    by (simp only: bit_iff_and_push_bit_not_eq_0)
  finally show ?thesis .
qed

lemma bit0_valid: "bit e 0 \<Longrightarrow> e AND PAGE_V \<noteq> 0"
  by (simp only: valid_iff)

lemma AllocatePageTable_valid:
  assumes "AllocatePageTable h s = Some (e, s')" and "e \<noteq> - 1"
  shows "e AND PAGE_V \<noteq> 0"
proof -
  from assms obtain e0 s0 where a: "AllocatePage h s = Some (e0, s0)" and ne: "e0 \<noteq> - 1"
    and e: "e = e0 AND NOT PAGE_U"
    by (auto simp: AllocatePageTable_def split: option.splits prod.splits if_splits)
  from AllocatePage_valid [OF a ne] have "bit e0 0" by simp
  then have "bit e 0"
    by (simp add: e PAGE_U_def bit_simps)
  then show ?thesis by (rule bit0_valid)
qed

lemma descend_alloc_grows:
  "descend_alloc h s n pt v = Some (mi, s') \<Longrightarrow> grows s s' \<and> descend s' n pt v = Some mi"
proof (induction n arbitrary: s pt)
  case 0
  then show ?case by (auto simp: grows_refl)
next
  case (Suc n)
  let ?k = "(GetPageAddress pt, pml4_index v (21 + 9 * n))"
  show ?case
  proof (cases "Load64 s ?k AND PAGE_V = 0")
    case False
    with Suc.prems have d: "descend_alloc h s n (Load64 s ?k) v = Some (mi, s')"
      by (simp add: Let_def)
    from Suc.IH [OF d] have g: "grows s s'" and r: "descend s' n (Load64 s ?k) v = Some mi"
      by simp_all
    from grows_Load64 [OF g, of ?k] False have "Load64 s' ?k = Load64 s ?k"
      by simp
    with False r g show ?thesis
      by (simp add: Let_def)
  next
    case True
    with Suc.prems obtain pt2 s1 where a: "AllocatePageTable h s = Some (pt2, s1)"
      and ne: "pt2 \<noteq> - 1"
      and d: "descend_alloc h (Store64 s1 ?k pt2) n pt2 v = Some (mi, s')"
      by (auto simp: Let_def split: option.splits if_splits)
    from AllocatePageTable_mem [OF a] have m: "mem s1 = mem s" "cr3 s1 = cr3 s"
      by simp_all
    then have g1: "grows s s1"
      by (simp add: grows_same_mem)
    from m True have "Load64 s1 ?k AND PAGE_V = 0"
      by (simp add: Load64_def)
    then have g2: "grows s1 (Store64 s1 ?k pt2)"
      by (rule grows_Store64)
    from Suc.IH [OF d] have g3: "grows (Store64 s1 ?k pt2) s'"
      and r: "descend s' n pt2 v = Some mi"
      by simp_all
    have vp: "pt2 AND PAGE_V \<noteq> 0"
      using AllocatePageTable_valid [OF a ne] .
    have "Load64 (Store64 s1 ?k pt2) ?k = pt2"
      by (simp add: Load64_Store64)
    with grows_Load64 [OF g3, of ?k] vp have "Load64 s' ?k = pt2"
      by simp
    with vp r have "descend s' (Suc n) pt v = Some mi"
      by (simp add: Let_def)
    moreover from g1 g2 g3 have "grows s s'"
      by (blast intro: grows_trans)
    ultimately show ?thesis by simp
  qed
qed


lemma or_valid: "x AND PAGE_V \<noteq> 0 \<Longrightarrow> (x OR y) AND PAGE_V \<noteq> 0"
  by (simp only: valid_iff) (simp add: bit_simps)

lemma entry_valid: "(x OR y OR PAGE_V) AND PAGE_V \<noteq> 0" "(y OR PAGE_V) AND PAGE_V \<noteq> 0"
  by (simp_all only: valid_iff) (simp_all add: bit_simps PAGE_V_def)

lemma ReserveVirtual_entry_valid:
  assumes "ReserveVirtual_entry cfg h s ma virt offset = Some (entry, s1, offset1)"
  shows "entry AND PAGE_V \<noteq> 0" and "mem s1 = mem s" and "cr3 s1 = cr3 s"
proof -
  from assms have "(\<exists>x. entry = x OR ma_flags ma OR PAGE_V) \<or> entry = ma_flags ma OR PAGE_V"
    by (auto simp: ReserveVirtual_entry_def Let_def split: if_splits option.splits)
  then show "entry AND PAGE_V \<noteq> 0"
    using entry_valid by metis
  from assms show "mem s1 = mem s" "cr3 s1 = cr3 s"
    by (auto simp: ReserveVirtual_entry_def Let_def split: if_splits option.splits)
qed

lemma ReserveVirtual_loop_maps:
  "ReserveVirtual_crawl cfg h ma s virt offset = Returns rc e s' \<longrightarrow>
     grows s s' \<and> IsFullyMapped_crawl s' virt (ma_end ma)"
  "ReserveVirtual_leaves cfg h ma s mi virt offset = Returns rc e s' \<longrightarrow>
     grows s s' \<and> IsFullyMapped_leaves s' mi virt (ma_end ma)"
proof (induction cfg h ma s virt offset and cfg h ma s mi virt offset
       rule: ReserveVirtual_crawl_ReserveVirtual_leaves.induct)
  case (1 cfg h ma s virt offset)
  show ?case
  proof (intro conjI impI)
    assume r: "ReserveVirtual_crawl cfg h ma s virt offset = Returns rc e s'"
    then obtain mi s1 where d: "descend_alloc h s 3 (cr3 s) virt = Some (mi, s1)"
      and l: "ReserveVirtual_leaves cfg h ma s1 mi virt offset = Returns rc e s'"
      by (subst (asm) ReserveVirtual_crawl.simps) (auto split: option.splits)
    from descend_alloc_grows [OF d] have g1: "grows s s1"
      and p: "descend s1 3 (cr3 s) virt = Some mi"
      by simp_all
    from "1.IH" [OF d refl] l have g2: "grows s1 s'"
      and f: "IsFullyMapped_leaves s' mi virt (ma_end ma)"
      by simp_all
    from g1 g2 show "grows s s'"
      by (rule grows_trans)
    from g1 g2 have c: "cr3 s' = cr3 s"
      by (simp add: grows_def)
    from grows_descend [OF g2 p] c f show "IsFullyMapped_crawl s' virt (ma_end ma)"
      by (subst IsFullyMapped_crawl.simps) simp
  qed
next
  case (2 cfg h ma s mi virt offset)
  show ?case
  proof (intro conjI impI)
    assume r: "ReserveVirtual_leaves cfg h ma s mi virt offset = Returns rc e s'"
    from r have nv: "\<not> Load64 s mi AND PAGE_V \<noteq> 0"
      by (subst (asm) ReserveVirtual_leaves.simps) (auto split: if_splits)
    from r nv obtain entry s1 offset1 where
      en: "ReserveVirtual_entry cfg h s ma virt offset = Some (entry, s1, offset1)"
      by (subst (asm) ReserveVirtual_leaves.simps) (auto split: option.splits)
    define s2 where "s2 = s1 \<lparr> vss := vss s1 + 1 \<rparr>"
    define s3 where "s3 = (if linear cfg then s2 \<lparr> rss := rss s2 + 1 \<rparr> else s2)"
    define entry1 where "entry1 = (if linear cfg then entry else entry OR PAGE_RSRV)"
    define entry2 where "entry2 = (if ma_fd ma \<noteq> - 1 \<and> virt + 4096 \<ge> ma_end ma
                            then entry1 OR PAGE_EOF else entry1)"
    define s4 where "s4 = Store64 s3 mi entry2"
    note defs = s2_def s3_def entry1_def entry2_def s4_def
    from ReserveVirtual_entry_valid [OF en] have ev: "entry AND PAGE_V \<noteq> 0"
      and m1: "mem s1 = mem s" "cr3 s1 = cr3 s"
      by simp_all
    have "entry1 AND PAGE_V \<noteq> 0"
      using ev by (simp add: entry1_def or_valid)
    then have v2: "entry2 AND PAGE_V \<noteq> 0"
      by (simp add: entry2_def or_valid)
    have m3: "mem s3 = mem s" "cr3 s3 = cr3 s"
      using m1 by (auto simp: s3_def s2_def)
    then have "Load64 s3 mi AND PAGE_V = 0"
      using nv by (simp add: Load64_def)
    then have "grows s3 s4"
      unfolding s4_def by (rule grows_Store64)
    moreover have "grows s s3"
      using m3 by (simp add: grows_same_mem)
    ultimately have g4: "grows s s4"
      by (blast intro: grows_trans)
    have l4: "Load64 s4 mi = entry2"
      by (simp add: s4_def Load64_Store64)
    have step: "ReserveVirtual_leaves cfg h ma s mi virt offset =
      (if virt + 4096 \<ge> ma_end ma then Returns 0 None s4
       else if Suc (snd mi) = 512
       then ReserveVirtual_crawl cfg h ma s4 (virt + 4096) offset1
       else ReserveVirtual_leaves cfg h ma s4 (fst mi, Suc (snd mi)) (virt + 4096) offset1)"
      using nv en by (subst ReserveVirtual_leaves.simps) (simp add: Let_def defs)
    show "grows s s'" "IsFullyMapped_leaves s' mi virt (ma_end ma)"
    proof -
      consider (last) "virt + 4096 \<ge> ma_end ma"
        | (crawl) "\<not> virt + 4096 \<ge> ma_end ma" "Suc (snd mi) = 512"
        | (leaves) "\<not> virt + 4096 \<ge> ma_end ma" "Suc (snd mi) \<noteq> 512"
        by blast
      then have "grows s s' \<and> IsFullyMapped_leaves s' mi virt (ma_end ma)"
      proof cases
        case last
        with r step have "s' = s4" by simp
        with g4 l4 v2 last show ?thesis
          by (subst IsFullyMapped_leaves.simps) simp
      next
        case crawl
        with r step have c: "ReserveVirtual_crawl cfg h ma s4 (virt + 4096) offset1 = Returns rc e s'"
          by simp
        from "2.IH"(1) [OF nv en refl refl refl refl refl refl refl crawl(1) crawl(2)] c
        have g: "grows s4 s'" and f: "IsFullyMapped_crawl s' (virt + 4096) (ma_end ma)"
          unfolding defs by simp_all
        from grows_Load64 [OF g, of mi] l4 v2 have "Load64 s' mi = entry2"
          by simp
        with v2 f crawl have "IsFullyMapped_leaves s' mi virt (ma_end ma)"
          by (subst IsFullyMapped_leaves.simps) simp
        with g4 g show ?thesis
          by (blast intro: grows_trans)
      next
        case leaves
        with r step have c: "ReserveVirtual_leaves cfg h ma s4 (fst mi, Suc (snd mi)) (virt + 4096) offset1 = Returns rc e s'"
          by simp
        from "2.IH"(2) [OF nv en refl refl refl refl refl refl refl leaves(1) leaves(2)] c
        have g: "grows s4 s'" and f: "IsFullyMapped_leaves s' (fst mi, Suc (snd mi)) (virt + 4096) (ma_end ma)"
          unfolding defs by simp_all
        from grows_Load64 [OF g, of mi] l4 v2 have "Load64 s' mi = entry2"
          by simp
        with v2 f leaves have "IsFullyMapped_leaves s' mi virt (ma_end ma)"
          by (subst IsFullyMapped_leaves.simps) simp
        with g4 g show ?thesis
          by (blast intro: grows_trans)
      qed
      then show "grows s s'" "IsFullyMapped_leaves s' mi virt (ma_end ma)"
        by simp_all
    qed
  qed
qed


lemma ReserveVirtual_Returns0:
  assumes "ReserveVirtual cfg h s virt size' flags fd offset shared = Returns 0 e s'"
  shows "IsValidAddrSize virt size'" and "IsFullyMapped s' virt size'"
proof -
  from assms show v: "IsValidAddrSize virt size'"
    by (auto simp: ReserveVirtual_def split: if_splits)
  from assms obtain ma s0 where
    c: "ReserveVirtual_crawl cfg h ma s0 virt offset = Returns 0 e s'" and
    m: "ma_end ma = virt + size'"
    by (auto simp: ReserveVirtual_def Let_def split: if_splits option.splits prod.splits)
  from ReserveVirtual_loop_maps(1) [of cfg h ma s0 virt offset 0 e s'] c m
  show "IsFullyMapped s' virt size'"
    by (simp add: IsFullyMapped_def)
qed

lemma pml4_index_next:
  assumes "Suc (pml4_index virt 12) \<noteq> 512"
  shows "pml4_index (virt + 4096) 12 = Suc (pml4_index virt 12)"
    and "pml4_index (virt + 4096) 21 = pml4_index virt 21"
    and "pml4_index (virt + 4096) 30 = pml4_index virt 30"
    and "pml4_index (virt + 4096) 39 = pml4_index virt 39"
proof -
  define q where "q = virt div 4096"
  have q1: "(virt + 4096) div 4096 = q + 1"
    by (simp add: q_def)
  have lt: "q mod 512 < 511"
    using assms by (simp add: pml4_index_def q_def)
  have ge: "0 \<le> q mod 512"
    by simp
  have dec: "q + 1 = 512 * (q div 512) + (q mod 512 + 1)"
    by simp
  have m: "(q + 1) mod 512 = q mod 512 + 1"
    using ge lt by (intro int_mod_pos_eq [OF dec]) simp_all
  have d: "(q + 1) div 512 = q div 512"
    using ge lt by (intro int_div_pos_eq [OF dec]) simp_all
  have a: "x div 2 ^ 12 = x div 4096"
    "x div 2 ^ 21 = x div 4096 div 512"
    "x div 2 ^ 30 = x div 4096 div 512 div 512"
    "x div 2 ^ 39 = x div 4096 div 512 div 512 div 512" for x :: int
    by (simp_all add: div_mult2_eq [symmetric])
  show "pml4_index (virt + 4096) 12 = Suc (pml4_index virt 12)"
    unfolding pml4_index_def a q1 q_def [symmetric] using m lt
    by (simp add: nat_add_distrib)
  show "pml4_index (virt + 4096) 21 = pml4_index virt 21"
    "pml4_index (virt + 4096) 30 = pml4_index virt 30"
    "pml4_index (virt + 4096) 39 = pml4_index virt 39"
    unfolding pml4_index_def a q1 q_def [symmetric] d by simp_all
qed

lemma descend_next:
  assumes "descend s 3 pt virt = Some mi" and "Suc (snd mi) \<noteq> 512"
  shows "descend s 3 pt (virt + 4096) = Some (fst mi, Suc (snd mi))"
proof -
  from assms(1) have "snd mi = pml4_index virt 12"
    by (auto simp: descend_levels Let_def split: if_splits)
  with assms(2) have n: "Suc (pml4_index virt 12) \<noteq> 512"
    by simp
  from assms(1) show ?thesis
    by (auto simp: descend_levels Let_def pml4_index_next [OF n] split: if_splits)
qed

lemma IsFullyMapped_pages:
  "IsFullyMapped_crawl s virt end' \<longrightarrow>
     (\<forall>k. (k = 0 \<or> virt + 4096 * int k < end') \<longrightarrow> leaf_valid s (virt + 4096 * int k))"
  "descend s 3 (cr3 s) virt = Some mi \<and> IsFullyMapped_leaves s mi virt end' \<longrightarrow>
     (\<forall>k. (k = 0 \<or> virt + 4096 * int k < end') \<longrightarrow> leaf_valid s (virt + 4096 * int k))"
proof (induction s virt end' and s mi virt end' rule: IsFullyMapped_crawl_IsFullyMapped_leaves.induct)
  case (1 s virt end')
  show ?case
  proof (intro impI)
    assume f: "IsFullyMapped_crawl s virt end'"
    then obtain mi where d: "descend s 3 (cr3 s) virt = Some mi"
      and l: "IsFullyMapped_leaves s mi virt end'"
      by (subst (asm) IsFullyMapped_crawl.simps) (auto split: option.splits)
    from "1.IH" [OF d] d l
    show "\<forall>k. (k = 0 \<or> virt + 4096 * int k < end') \<longrightarrow> leaf_valid s (virt + 4096 * int k)"
      by simp
  qed
next
  case (2 s mi virt end')
  show ?case
  proof (intro impI allI, elim conjE)
    fix k :: nat
    assume d: "descend s 3 (cr3 s) virt = Some mi"
      and f: "IsFullyMapped_leaves s mi virt end'"
      and k: "k = 0 \<or> virt + 4096 * int k < end'"
    from f have v: "\<not> Load64 s mi AND PAGE_V = 0"
      by (subst (asm) IsFullyMapped_leaves.simps) (auto split: if_splits)
    show "leaf_valid s (virt + 4096 * int k)"
    proof (cases k)
      case 0
      with d v show ?thesis
        by (simp add: leaf_valid_def)
    next
      case (Suc j)
      with k have lt: "virt + 4096 * int (Suc j) < end'" by simp
      then have more: "\<not> virt + 4096 \<ge> end'" by simp
      have j: "j = 0 \<or> (virt + 4096) + 4096 * int j < end'"
        using lt by simp
      have e: "virt + 4096 * int k = (virt + 4096) + 4096 * int j"
        using Suc by simp
      show ?thesis
      proof (cases "Suc (snd mi) = 512")
        case True
        with f v more have "IsFullyMapped_crawl s (virt + 4096) end'"
          by (subst (asm) IsFullyMapped_leaves.simps) simp
        with "2.IH"(1) [OF v more True] j show ?thesis
          unfolding e by blast
      next
        case False
        with f v more have "IsFullyMapped_leaves s (fst mi, Suc (snd mi)) (virt + 4096) end'"
          by (subst (asm) IsFullyMapped_leaves.simps) simp
        with "2.IH"(2) [OF v more False] descend_next [OF d False] j show ?thesis
          unfolding e by blast
      qed
    qed
  qed
qed

subsection \<open>Evaluating \<open>ReserveVirtual\<close> on \<open>system0\<close>\<close>

lemma walk_system0: "walk_from_cr3 system0 0x10000 = ((0x1000, 0), 0, 39)"
  by (simp add: walk_from_cr3_levels Let_def pml4_index_def Load64_def GetPageAddress_def PAGE_TA_def PAGE_V_def system0_def)

lemma RemoveVirtual_system0:
  "RemoveVirtual config0 memhost0 system0 0x10000 0x11000 acc = Some (system0, acc)"
  apply (subst RemoveVirtual.simps)
  apply (simp add: walk_system0 PAGE_V_def)
  apply (subst RemoveVirtual.simps)
  apply simp
  done

lemma flags0: "PAGE_U OR PAGE_RW = (6 :: u64)"
  by (simp add: PAGE_U_def PAGE_RW_def)

lemma ReserveVirtual_system0:
  "\<exists>s'. ReserveVirtual config0 memhost0 system0 0x10000 4096 (PAGE_U OR PAGE_RW) (- 1) 0 False =
        Returns 0 None s'"
proof -
  have v: "IsValidAddrSize 0x10000 4096"
    by (simp add: IsValidAddrSize_def)
  have o: "\<not> OverlapsPrecious config0 0x10000 4096"
    by (simp add: OverlapsPrecious_def config0_def)
  have c: "linear config0" "pagesize config0 = 65536" "kSkew config0 = 0"
    by (simp_all add: config0_def)
  have m: "Mmap_result memhost0 t = MmapAt 0x10000" for t
    by (simp add: memhost0_def)
  have f: "(6::u64) AND PAGE_TA = 0" "(6::u64) AND PAGE_MAP = 0" "(6::u64) AND PAGE_HOST = 0"
    "(6::u64) AND PAGE_RSRV = 0" "(6::u64) AND PAGE_U \<noteq> 0" "(6::u64) AND PAGE_RW \<noteq> 0"
    by (simp_all add: PAGE_TA_def PAGE_MAP_def PAGE_HOST_def PAGE_RSRV_def PAGE_U_def PAGE_RW_def)
  show ?thesis
    unfolding flags0
    apply (simp add: ReserveVirtual_def v o c m f RemoveVirtual_system0 Let_def)
    apply (simp add: ReserveVirtual_crawl.simps numeral_3_eq_3 Let_def pml4_index_def Load64_def Store64_def GetPageAddress_def
        PAGE_TA_def PAGE_V_def PAGE_U_def PAGE_RW_def PAGE_HOST_def PAGE_MAP_def
        AllocatePageTable_def AllocatePage_def system0_def)
    apply (simp add: ReserveVirtual_leaves.simps Let_def Load64_def Store64_def ReserveVirtual_entry_def c
        PAGE_TA_def PAGE_V_def PAGE_U_def PAGE_RW_def PAGE_HOST_def PAGE_MAP_def PAGE_MUG_def)
    done
qed

subsection \<open>Claim C1\<close>

text \<open>
  C1. Whenever \<open>ReserveVirtual(s, virt, size, flags, fd, offset, shared)\<close> returns 0, the
  interval is one that \<open>IsValidAddrSize\<close> accepts and \<open>IsFullyMapped(s, virt, size)\<close> holds
  in the state it leaves: every 4096-byte page of \<open>[virt, virt + size)\<close> has a leaf entry,
  reached from \<open>cr3\<close> through valid tables, with \<open>PAGE_V\<close> set. This holds for every
  state before the call, every host behaviour and every configuration.
\<close>

theorem ReserveVirtual_success_IsFullyMapped:
  assumes "ReserveVirtual cfg h s virt size' flags fd offset shared = Returns 0 e s'"
  shows "IsValidAddrSize virt size' \<and> IsFullyMapped s' virt size' \<and>
         (\<forall>k. 0 \<le> k \<and> 4096 * k < size' \<longrightarrow> leaf_valid s' (virt + 4096 * k))"
proof -
  note r = ReserveVirtual_Returns0 [OF assms]
  have "leaf_valid s' (virt + 4096 * k)" if "0 \<le> k" "4096 * k < size'" for k
  proof -
    from r(2) have "IsFullyMapped_crawl s' virt (virt + size')"
      by (simp only: IsFullyMapped_def)
    with IsFullyMapped_pages(1) [of s' virt "virt + size'"]
    have a: "\<forall>n. (n = 0 \<or> virt + 4096 * int n < virt + size') \<longrightarrow>
          leaf_valid s' (virt + 4096 * int n)"
      by (rule mp)
    from that have i: "int (nat k) = k" by simp
    from that have "virt + 4096 * int (nat k) < virt + size'"
      by simp
    with a have "leaf_valid s' (virt + 4096 * int (nat k))"
      by blast
    then show ?thesis
      by (simp only: i)
  qed
  with r show ?thesis by blast
qed

theorem ReserveVirtual_success_IsFullyMapped_witness:
  "\<exists>s'. ReserveVirtual config0 memhost0 system0 0x10000 4096 (PAGE_U OR PAGE_RW) (- 1) 0 False =
          Returns 0 None s' \<and>
        IsValidAddrSize 0x10000 4096 \<and> IsFullyMapped s' 0x10000 4096 \<and>
        leaf_valid s' 0x10000"
proof -
  from ReserveVirtual_system0 obtain s' where
    r: "ReserveVirtual config0 memhost0 system0 0x10000 4096 (PAGE_U OR PAGE_RW) (- 1) 0 False =
          Returns 0 None s'"
    by blast
  from ReserveVirtual_success_IsFullyMapped [OF r]
  have m: "IsValidAddrSize 0x10000 4096" "IsFullyMapped s' 0x10000 4096"
    and l: "\<forall>k. 0 \<le> k \<and> 4096 * k < 4096 \<longrightarrow> leaf_valid s' (0x10000 + 4096 * k)"
    by blast+
  from l [rule_format, of 0] have "leaf_valid s' 0x10000"
    by simp
  with m r show ?thesis
    by blast
qed

subsection \<open>\<open>RemoveVirtual\<close> leaves no valid leaf\<close>

lemma walk_same_tables:
  assumes "\<forall>p \<in> set (upper_tables s n pt w). mem s' p = mem s p"
  shows "upper_tables s' n pt w = upper_tables s n pt w \<and>
         fst (walk s' n pt w) = fst (walk s n pt w) \<and>
         snd (snd (walk s' n pt w)) = snd (snd (walk s n pt w))"
  using assms
proof (induction n arbitrary: pt)
  case 0
  show ?case by (simp add: Let_def)
next
  case (Suc n)
  let ?mi = "(GetPageAddress pt, pml4_index w (21 + 9 * n))"
  from Suc.prems have "mem s' (GetPageAddress pt) = mem s (GetPageAddress pt)"
    by (simp add: Let_def)
  then have l: "Load64 s' ?mi = Load64 s ?mi"
    by (simp add: Load64_def)
  show ?case
  proof (cases "Load64 s ?mi AND PAGE_V = 0")
    case True
    with l show ?thesis by (simp add: Let_def)
  next
    case False
    with Suc.prems have "\<forall>p \<in> set (upper_tables s n (Load64 s ?mi) w). mem s' p = mem s p"
      by (simp add: Let_def)
    from Suc.IH [OF this] l False show ?thesis
      by (simp add: Let_def)
  qed
qed

lemma walk_pt: "fst (snd (walk s n pt w)) = Load64 s (fst (walk s n pt w))"
  by (induction n arbitrary: pt) (simp_all add: Let_def)

lemma shrinks_walk:
  assumes "shrinks s s'" and "walk_from_cr3 s v = (mi, pt, i)"
  shows "walk_from_cr3 s' v = (mi, Load64 s' mi, i)" and "pt = Load64 s mi"
    and "upper_tables s' 3 (cr3 s') w = upper_tables s 3 (cr3 s) w"
proof -
  from assms(1) have c: "cr3 s' = cr3 s"
    and t: "\<forall>p \<in> set (upper_tables s 3 (cr3 s) u). mem s' p = mem s p" for u
    by (simp_all add: shrinks_def)
  from walk_same_tables [OF t [of v]] assms(2) c
  have "fst (walk_from_cr3 s' v) = mi" "snd (snd (walk_from_cr3 s' v)) = i"
    by (simp_all add: walk_from_cr3_def)
  moreover have "fst (snd (walk_from_cr3 s' v)) = Load64 s' (fst (walk_from_cr3 s' v))"
    unfolding walk_from_cr3_def by (rule walk_pt)
  ultimately show "walk_from_cr3 s' v = (mi, Load64 s' mi, i)"
    by (metis prod.collapse)
  from walk_pt [of s 3 "cr3 s" v] assms(2) show "pt = Load64 s mi"
    by (simp add: walk_from_cr3_def)
  from walk_same_tables [OF t [of w]] c
  show "upper_tables s' 3 (cr3 s') w = upper_tables s 3 (cr3 s) w"
    by simp
qed

lemma shrinks_Load64:
  "shrinks s s' \<Longrightarrow> Load64 s' k = Load64 s k \<or> Load64 s' k = 0"
  by (simp add: shrinks_def Load64_def)

lemma shrinks_refl: "shrinks s s"
  by (simp add: shrinks_def)

lemma shrinks_trans:
  assumes "shrinks s s1" and "shrinks s1 s2"
  shows "shrinks s s2"
proof -
  have t: "upper_tables s1 3 (cr3 s1) w = upper_tables s 3 (cr3 s) w" for w
    using shrinks_walk(3) [OF assms(1)] by (metis prod.collapse)
  from assms have c: "cr3 s2 = cr3 s"
    by (simp add: shrinks_def)
  have "mem s2 p = mem s p" if "p \<in> set (upper_tables s 3 (cr3 s) w)" for w p
  proof -
    from that t have "p \<in> set (upper_tables s1 3 (cr3 s1) w)" by simp
    with assms(2) have "mem s2 p = mem s1 p"
      unfolding shrinks_def by blast
    also from that assms(1) have "mem s1 p = mem s p"
      unfolding shrinks_def by blast
    finally show ?thesis .
  qed
  moreover have "mem s2 p j = mem s p j \<or> mem s2 p j = 0" for p j
  proof -
    from assms(2) have "mem s2 p j = mem s1 p j \<or> mem s2 p j = 0"
      unfolding shrinks_def by blast
    moreover from assms(1) have "mem s1 p j = mem s p j \<or> mem s1 p j = 0"
      unfolding shrinks_def by blast
    ultimately show ?thesis by auto
  qed
  ultimately show ?thesis
    using c unfolding shrinks_def by blast
qed

lemma tables_unaliasedD:
  assumes "tables_unaliased s" and "walk_from_cr3 s v = (mi, pt, i)" and "pt AND PAGE_V \<noteq> 0"
  shows "fst mi \<notin> set (upper_tables s 3 (cr3 s) w)"
    and "pt AND (PAGE_HOST OR PAGE_MAP OR PAGE_MUG) = PAGE_HOST \<Longrightarrow>
         pt AND PAGE_TA \<notin> set (upper_tables s 3 (cr3 s) w)"
proof -
  from assms(1) have "case walk_from_cr3 s v of
        (mi, pt, i) \<Rightarrow>
          pt AND PAGE_V \<noteq> 0 \<longrightarrow>
            fst mi \<notin> set (upper_tables s 3 (cr3 s) w) \<and>
            (pt AND (PAGE_HOST OR PAGE_MAP OR PAGE_MUG) = PAGE_HOST \<longrightarrow>
               pt AND PAGE_TA \<notin> set (upper_tables s 3 (cr3 s) w))"
    by (simp only: tables_unaliased_def)
  with assms(2,3) show "fst mi \<notin> set (upper_tables s 3 (cr3 s) w)"
    and "pt AND (PAGE_HOST OR PAGE_MAP OR PAGE_MUG) = PAGE_HOST \<Longrightarrow>
         pt AND PAGE_TA \<notin> set (upper_tables s 3 (cr3 s) w)"
    by simp_all
qed

lemma shrinks_unaliased:
  assumes "shrinks s s'" and "tables_unaliased s"
  shows "tables_unaliased s'"
  unfolding tables_unaliased_def
proof (intro allI)
  fix v w
  obtain mi pt i where k: "walk_from_cr3 s v = (mi, pt, i)"
    by (metis prod.collapse)
  note sw = shrinks_walk [OF assms(1) k]
  show "case walk_from_cr3 s' v of
        (mi, pt, i) \<Rightarrow>
          pt AND PAGE_V \<noteq> 0 \<longrightarrow>
            fst mi \<notin> set (upper_tables s' 3 (cr3 s') w) \<and>
            (pt AND (PAGE_HOST OR PAGE_MAP OR PAGE_MUG) = PAGE_HOST \<longrightarrow>
               pt AND PAGE_TA \<notin> set (upper_tables s' 3 (cr3 s') w))"
  proof (cases "Load64 s' mi AND PAGE_V = 0")
    case True
    with sw(1) show ?thesis by simp
  next
    case False
    with shrinks_Load64 [OF assms(1), of mi] have e: "Load64 s' mi = pt"
      using sw(2) by auto
    with False have "pt AND PAGE_V \<noteq> 0" by simp
    from tables_unaliasedD [OF assms(2) k this, of w] sw(1) sw(3) [of w] e show ?thesis
      by simp
  qed
qed

lemma FreePage_mem:
  assumes "FreePage cfg h s pt sz acc = Some (lin, s1, acc1)"
  shows "cr3 s1 = cr3 s"
    and "mem s1 = mem s \<or>
         (pt AND (PAGE_HOST OR PAGE_MAP OR PAGE_MUG) = PAGE_HOST \<and>
          mem s1 = (mem s)(pt AND PAGE_TA := (\<lambda>_. 0)))"
  using assms
  by (auto simp: FreePage_def Let_def FreeAnonymousPage_def ClearPage_def TallyFreePage_def
      split: if_splits option.splits)

lemma AddPageToRanges_mem:
  assumes "AddPageToRanges h s rs v e = Some (s2, rs')"
  shows "cr3 s2 = cr3 s" and "mem s2 = mem s"
  using assms
  by (auto simp: AddPageToRanges_def split: if_splits list.splits)

lemma shrinks_step:
  assumes u: "tables_unaliased s" and k: "walk_from_cr3 s v = (mi, pt, i)"
    and v: "pt AND PAGE_V \<noteq> 0" and c: "cr3 s2 = cr3 s"
    and m: "mem s2 = mem s \<or>
         (pt AND (PAGE_HOST OR PAGE_MAP OR PAGE_MUG) = PAGE_HOST \<and>
          mem s2 = (mem s)(pt AND PAGE_TA := (\<lambda>_. 0)))"
  shows "shrinks s (Store64 s2 mi 0)"
proof -
  have "mem (Store64 s2 mi 0) p = mem s p" if "p \<in> set (upper_tables s 3 (cr3 s) w)" for w p
  proof -
    from tables_unaliasedD(1) [OF u k v, of w] that have n: "p \<noteq> fst mi"
      by blast
    from m have "mem s2 p = mem s p"
    proof
      assume "mem s2 = mem s"
      then show ?thesis by simp
    next
      assume a: "pt AND (PAGE_HOST OR PAGE_MAP OR PAGE_MUG) = PAGE_HOST \<and>
          mem s2 = (mem s)(pt AND PAGE_TA := (\<lambda>_. 0))"
      with tables_unaliasedD(2) [OF u k v, of w] that have "p \<noteq> pt AND PAGE_TA"
        by blast
      with a show ?thesis by simp
    qed
    with n show ?thesis
      by (simp add: Store64_def)
  qed
  moreover have "mem (Store64 s2 mi 0) p j = mem s p j \<or> mem (Store64 s2 mi 0) p j = 0" for p j
    using m by (auto simp: Store64_def)
  moreover have "cr3 (Store64 s2 mi 0) = cr3 s"
    using c by (simp add: Store64_def)
  ultimately show ?thesis
    unfolding shrinks_def by blast
qed

lemma RemoveVirtual_unmaps:
  "tables_unaliased s \<Longrightarrow> RemoveVirtual cfg h s virt end' acc = Some (s', acc') \<Longrightarrow>
   shrinks s s' \<and> IsFullyUnmapped_loop s' virt end'"
proof (induction cfg h s virt end' acc rule: RemoveVirtual.induct)
  case (1 cfg h s virt end' acc)
  note u = "1.prems"(1) and r = "1.prems"(2)
  show ?case
  proof (cases "virt < end'")
    case False
    with r have "s' = s"
      by (subst (asm) RemoveVirtual.simps) simp
    with False show ?thesis
      by (subst IsFullyUnmapped_loop.simps) (simp add: shrinks_refl)
  next
    case True
    obtain mi pt i where k: "walk_from_cr3 s virt = (mi, pt, i)"
      by (metis prod.collapse)
    show ?thesis
    proof (cases "pt AND PAGE_V = 0")
      case inv: True
      from r True k inv have r1: "RemoveVirtual cfg h s (virt + 2 ^ i) end' acc = Some (s', acc')"
        by (subst (asm) RemoveVirtual.simps) simp
      from "1.IH"(1) [OF True k [symmetric] refl inv u r1]
      have g: "shrinks s s'" and l: "IsFullyUnmapped_loop s' (virt + 2 ^ i) end'"
        by simp_all
      from shrinks_walk(1,2) [OF g k] have w: "walk_from_cr3 s' virt = (mi, Load64 s' mi, i)"
        and p: "pt = Load64 s mi"
        by simp_all
      from shrinks_Load64 [OF g, of mi] p inv have "Load64 s' mi AND PAGE_V = 0"
        by auto
      with w l True have "IsFullyUnmapped_loop s' virt end'"
        by (subst IsFullyUnmapped_loop.simps) simp
      with g show ?thesis ..
    next
      case val: False
      from r True k val obtain lin s1 acc1 s2 rs where
        f: "FreePage cfg h s pt (min 4096 (end' - virt)) acc = Some (lin, s1, acc1)" and
        a: "(if lin \<and> linear cfg then AddPageToRanges h s1 (ranges acc1) virt end'
             else Some (s1, ranges acc1)) = Some (s2, rs)" and
        r1: "RemoveVirtual cfg h (Store64 s2 mi 0) (virt + 2 ^ i) end'
               (acc1 \<lparr> ranges := rs, vss_delta := vss_delta acc1 - 1 \<rparr>) = Some (s', acc')"
        by (subst (asm) RemoveVirtual.simps) (auto split: option.splits)
      from a have m2: "cr3 s2 = cr3 s1" "mem s2 = mem s1"
        using AddPageToRanges_mem [of h s1 "ranges acc1" virt end' s2 rs]
        by (auto split: if_splits)
      with FreePage_mem [OF f] have c: "cr3 s2 = cr3 s" and
        m: "mem s2 = mem s \<or>
         (pt AND (PAGE_HOST OR PAGE_MAP OR PAGE_MUG) = PAGE_HOST \<and>
          mem s2 = (mem s)(pt AND PAGE_TA := (\<lambda>_. 0)))"
        by simp_all
      from shrinks_step [OF u k val c m] have g1: "shrinks s (Store64 s2 mi 0)" .
      from shrinks_unaliased [OF g1 u] have u1: "tables_unaliased (Store64 s2 mi 0)" .
      from "1.IH"(2) [OF True k [symmetric] refl val f refl refl a refl u1 r1]
      have g2: "shrinks (Store64 s2 mi 0) s'"
        and l: "IsFullyUnmapped_loop s' (virt + 2 ^ i) end'"
        by simp_all
      from g1 g2 have g: "shrinks s s'"
        by (rule shrinks_trans)
      from shrinks_walk(1) [OF g1 k] have "walk_from_cr3 (Store64 s2 mi 0) virt =
          (mi, Load64 (Store64 s2 mi 0) mi, i)" .
      from shrinks_walk(1) [OF g2 this] have w: "walk_from_cr3 s' virt = (mi, Load64 s' mi, i)" .
      have "Load64 (Store64 s2 mi 0) mi = 0"
        by (simp add: Load64_Store64)
      with shrinks_Load64 [OF g2, of mi] have "Load64 s' mi AND PAGE_V = 0"
        by auto
      with w l True have "IsFullyUnmapped_loop s' virt end'"
        by (subst IsFullyUnmapped_loop.simps) simp
      with g show ?thesis ..
    qed
  qed
qed

lemma shrinks_same_mem: "cr3 s' = cr3 s \<Longrightarrow> mem s' = mem s \<Longrightarrow> shrinks s s'"
  by (simp add: shrinks_def)

lemma IsFullyUnmapped_loop_shrinks:
  "shrinks s s' \<Longrightarrow> IsFullyUnmapped_loop s virt end' \<Longrightarrow> IsFullyUnmapped_loop s' virt end'"
proof (induction s virt end' rule: IsFullyUnmapped_loop.induct)
  case (1 s virt end')
  note g = "1.prems"(1) and l = "1.prems"(2)
  show ?case
  proof (cases "virt < end'")
    case False
    then show ?thesis
      by (subst IsFullyUnmapped_loop.simps) simp
  next
    case True
    obtain mi pt i where k: "walk_from_cr3 s virt = (mi, pt, i)"
      by (metis prod.collapse)
    from l True k have inv: "pt AND PAGE_V = 0"
      and n: "IsFullyUnmapped_loop s (virt + 2 ^ i) end'"
      by (subst (asm) IsFullyUnmapped_loop.simps, simp split: if_splits)+
    from "1.IH" [OF True k [symmetric] refl inv g n]
    have l': "IsFullyUnmapped_loop s' (virt + 2 ^ i) end'" .
    from shrinks_walk(1,2) [OF g k] have w: "walk_from_cr3 s' virt = (mi, Load64 s' mi, i)"
      and p: "pt = Load64 s mi"
      by simp_all
    from shrinks_Load64 [OF g, of mi] p inv have "Load64 s' mi AND PAGE_V = 0"
      by auto
    with w l' True show ?thesis
      by (subst IsFullyUnmapped_loop.simps) simp
  qed
qed

lemma FreeVirtual_munmap_mem:
  "FreeVirtual_munmap cfg h rs (rc, e, s) = (rc', e', s') \<Longrightarrow> cr3 s' = cr3 s \<and> mem s' = mem s"
proof (induction rs arbitrary: rc e s)
  case Nil
  then show ?case by simp
next
  case (Cons ab rs)
  obtain a b where ab: "ab = (a, b)" by (cases ab)
  let ?s1 = "s \<lparr> hostlog := HostMunmap (a + kSkew cfg) (b - a) # hostlog s, tick := Suc (tick s) \<rparr>"
  from Cons.prems ab have "FreeVirtual_munmap cfg h rs (- 1, Some EINVAL, ?s1) = (rc', e', s') \<or>
      FreeVirtual_munmap cfg h rs (rc, e, ?s1) = (rc', e', s')"
    by (simp add: Let_def split: if_splits)
  then have "cr3 s' = cr3 ?s1 \<and> mem s' = mem ?s1"
    using Cons.IH by blast
  then show ?case by simp
qed

lemma FreeVirtual_Returns:
  assumes "IsValidAddrSize virt size'"
    and "FreeVirtual cfg h s virt size' = Returns rc e s'"
  obtains s1 acc acc' where
    "RemoveVirtual cfg h s virt (virt + size') acc = Some (s1, acc')"
    "cr3 s' = cr3 s1" "mem s' = mem s1"
proof -
  let ?acc = "\<lparr> ranges = [], mutated = False, vss_delta = 0, rss_delta = 0 \<rparr>"
  from assms obtain s1 acc' where
    r: "RemoveVirtual cfg h s virt (virt + size') ?acc = Some (s1, acc')"
    by (auto simp: FreeVirtual_def split: option.splits)
  obtain rc2 e2 s2 where
    m: "FreeVirtual_munmap cfg h (rev (ranges acc')) (0, None, s1) = (rc2, e2, s2)"
    by (metis prod.collapse)
  from FreeVirtual_munmap_mem [OF m] have c2: "cr3 s2 = cr3 s1" "mem s2 = mem s1"
    by simp_all
  from assms r m have "cr3 s' = cr3 s2 \<and> mem s' = mem s2"
    by (auto simp: FreeVirtual_def Let_def)
  with c2 r that show ?thesis
    by simp
qed

subsection \<open>Evaluating \<open>FreeVirtual\<close> on \<open>system1\<close>\<close>

lemma upper_tables_levels:
  "upper_tables s 3 pt virt =
     (let p39 = Load64 s (GetPageAddress pt, pml4_index virt 39);
          p30 = Load64 s (GetPageAddress p39, pml4_index virt 30)
      in GetPageAddress pt #
         (if p39 AND PAGE_V = 0 then []
          else GetPageAddress p39 #
            (if p30 AND PAGE_V = 0 then [] else [GetPageAddress p30])))"
  by (simp add: numeral_3_eq_3 Let_def)

lemma upper_tables_system1:
  "set (upper_tables system1 3 (cr3 system1) w) \<subseteq> {0x1000, 0x2000, 0x3000}"
  by (simp add: upper_tables_levels Let_def Load64_def GetPageAddress_def PAGE_TA_def PAGE_V_def
      system1_def system0_def)

lemma walk_system1_valid:
  assumes "walk_from_cr3 system1 v = (mi, pt, i)" and "pt AND PAGE_V \<noteq> 0"
  shows "mi = (0x4000, 16)" and "pt = 0x10C07"
  using assms
  by (auto simp: walk_from_cr3_levels Let_def Load64_def GetPageAddress_def PAGE_TA_def PAGE_V_def
      system1_def system0_def split: if_splits)

lemma tables_unaliased_system1: "tables_unaliased system1"
  unfolding tables_unaliased_def
proof (intro allI)
  fix v w
  obtain mi pt i where k: "walk_from_cr3 system1 v = (mi, pt, i)"
    by (metis prod.collapse)
  have "fst mi \<notin> set (upper_tables system1 3 (cr3 system1) w) \<and>
        (pt AND (PAGE_HOST OR PAGE_MAP OR PAGE_MUG) = PAGE_HOST \<longrightarrow>
           pt AND PAGE_TA \<notin> set (upper_tables system1 3 (cr3 system1) w))"
    if "pt AND PAGE_V \<noteq> 0"
  proof -
    from walk_system1_valid [OF k that] have "fst mi = 0x4000"
      and "pt AND (PAGE_HOST OR PAGE_MAP OR PAGE_MUG) \<noteq> PAGE_HOST"
      by (simp_all add: PAGE_HOST_def PAGE_MAP_def PAGE_MUG_def)
    with upper_tables_system1 [of w] show ?thesis
      by auto
  qed
  with k show "case walk_from_cr3 system1 v of
        (mi, pt, i) \<Rightarrow>
          pt AND PAGE_V \<noteq> 0 \<longrightarrow>
            fst mi \<notin> set (upper_tables system1 3 (cr3 system1) w) \<and>
            (pt AND (PAGE_HOST OR PAGE_MAP OR PAGE_MUG) = PAGE_HOST \<longrightarrow>
               pt AND PAGE_TA \<notin> set (upper_tables system1 3 (cr3 system1) w))"
    by simp
qed

lemma FreeVirtual_system1:
  "\<exists>s'. FreeVirtual config0 memhost0 system1 0x10000 4096 = Returns 0 None s'"
proof -
  have v: "IsValidAddrSize 0x10000 4096"
    by (simp add: IsValidAddrSize_def)
  have f: "FreePage config0 memhost0 system1 0x10C07 4096
             \<lparr> ranges = [], mutated = False, vss_delta = 0, rss_delta = 0 \<rparr> =
           Some (True, TallyFreePage system1 0x10C07,
                 \<lparr> ranges = [], mutated = False, vss_delta = 0, rss_delta = - 1 \<rparr>)"
    by (simp add: FreePage_def PAGE_V_def PAGE_HOST_def PAGE_MAP_def PAGE_MUG_def PAGE_RSRV_def)
  have c: "linear config0"
    by (simp add: config0_def)
  have mo: "malloc_ok memhost0 t" for t
    by (simp add: memhost0_def)
  have "\<exists>s1. RemoveVirtual config0 memhost0 system1 0x10000 (0x10000 + 4096)
             \<lparr> ranges = [], mutated = False, vss_delta = 0, rss_delta = 0 \<rparr> =
           Some (s1, \<lparr> ranges = [(0x10000, 0x11000)], mutated = False, vss_delta = - 1,
                      rss_delta = - 1 \<rparr>)"
    apply (subst RemoveVirtual.simps)
    apply (simp add: walk_system1_mapped PAGE_V_def f c AddPageToRanges_def mo)
    apply (subst RemoveVirtual.simps)
    apply simp
    done
  then obtain s1 where r: "RemoveVirtual config0 memhost0 system1 0x10000 (0x10000 + 4096)
             \<lparr> ranges = [], mutated = False, vss_delta = 0, rss_delta = 0 \<rparr> =
           Some (s1, \<lparr> ranges = [(0x10000, 0x11000)], mutated = False, vss_delta = - 1,
                      rss_delta = - 1 \<rparr>)"
    by blast
  have mu: "Munmap_result memhost0 t = 0" for t
    by (simp add: memhost0_def)
  show ?thesis
    by (simp add: FreeVirtual_def v r [simplified] Let_def mu)
qed

subsection \<open>Claim C2\<close>

text \<open>
  C2. For every interval \<open>(virt, size)\<close> that \<open>IsValidAddrSize\<close> accepts and every system
  whose tables are not aliased, after \<open>FreeVirtual(s, virt, size)\<close> returns (with 0, or
  with \<open>-1\<close> after a failed \<open>munmap\<close>) the walk of \<open>IsFullyUnmapped\<close> over
  \<open>[virt, virt + size)\<close> meets no valid leaf. So \<open>IsFullyUnmapped(s, virt, size)\<close> is
  true exactly when the system is not in linear mode or the interval does not overlap
  the precious window; for an interval that overlaps it in linear mode the answer is
  false, whatever \<open>FreeVirtual\<close> has removed.
\<close>

theorem FreeVirtual_then_IsFullyUnmapped:
  assumes "IsValidAddrSize virt size'" and "tables_unaliased s"
    and "FreeVirtual cfg h s virt size' = Returns rc e s'"
  shows "IsFullyUnmapped_loop s' virt (virt + size') \<and>
         IsFullyUnmapped cfg s' virt size' = (\<not> (linear cfg \<and> OverlapsPrecious cfg virt size'))"
proof -
  from FreeVirtual_Returns [OF assms(1,3)] obtain s1 acc acc' where
    r: "RemoveVirtual cfg h s virt (virt + size') acc = Some (s1, acc')"
    and m: "cr3 s' = cr3 s1" "mem s' = mem s1"
    by blast
  from RemoveVirtual_unmaps [OF assms(2) r]
  have "IsFullyUnmapped_loop s1 virt (virt + size')"
    by simp
  with shrinks_same_mem [OF m] have "IsFullyUnmapped_loop s' virt (virt + size')"
    by (rule IsFullyUnmapped_loop_shrinks)
  then show ?thesis
    by (simp add: IsFullyUnmapped_def)
qed

theorem FreeVirtual_then_IsFullyUnmapped_witness:
  "IsValidAddrSize 0x10000 4096 \<and> tables_unaliased system1 \<and>
   \<not> IsFullyUnmapped config0 system1 0x10000 4096 \<and>
   (\<exists>s'. FreeVirtual config0 memhost0 system1 0x10000 4096 = Returns 0 None s' \<and>
      IsFullyUnmapped config0 s' 0x10000 4096)"
proof -
  from FreeVirtual_system1 obtain s' where
    r: "FreeVirtual config0 memhost0 system1 0x10000 4096 = Returns 0 None s'"
    by blast
  have v: "IsValidAddrSize 0x10000 4096"
    by (simp add: IsValidAddrSize_def)
  have o: "\<not> OverlapsPrecious config0 0x10000 4096"
    by (simp add: OverlapsPrecious_def config0_def)
  have "\<not> IsFullyUnmapped_loop system1 0x10000 (0x10000 + 4096)"
    by (subst IsFullyUnmapped_loop.simps) (simp add: walk_system1_mapped PAGE_V_def)
  then have n: "\<not> IsFullyUnmapped config0 system1 0x10000 4096"
    by (simp add: IsFullyUnmapped_def)
  from FreeVirtual_then_IsFullyUnmapped [OF v tables_unaliased_system1 r] o
  have "IsFullyUnmapped config0 s' 0x10000 4096"
    by simp
  with v n r tables_unaliased_system1 show ?thesis
    by blast
qed

text \<open>
  The claim as it stands fails in linear mode: \<open>FreeVirtual\<close> does not look at the
  precious window, and returns 0 for two pages at its start, for which
  \<open>IsFullyUnmapped\<close> is false.
\<close>

theorem FreeVirtual_precious_counterexample:
  "IsValidAddrSize 0x100000000000 8192 \<and>
   FreeVirtual config0 memhost0 system1 0x100000000000 8192 =
     Returns 0 None (system1 \<lparr> invalidated := True \<rparr>) \<and>
   \<not> IsFullyUnmapped config0 (system1 \<lparr> invalidated := True \<rparr>) 0x100000000000 8192"
proof -
  have v: "IsValidAddrSize 0x100000000000 8192"
    by (simp add: IsValidAddrSize_def)
  have w: "walk_from_cr3 system1 0x100000000000 = ((0x1000, 32), 0, 39)"
    by (simp add: walk_from_cr3_levels Let_def pml4_index_def Load64_def GetPageAddress_def
        PAGE_TA_def PAGE_V_def system1_def system0_def)
  have r: "RemoveVirtual config0 memhost0 system1 0x100000000000 (0x100000000000 + 8192) acc =
      Some (system1, acc)" for acc
    apply (subst RemoveVirtual.simps)
    apply (simp add: w)
    apply (subst RemoveVirtual.simps)
    apply simp
    done
  have f: "FreeVirtual config0 memhost0 system1 0x100000000000 8192 =
     Returns 0 None (system1 \<lparr> invalidated := True \<rparr>)"
    by (simp add: FreeVirtual_def v r [simplified] Let_def) (simp add: system1_def system0_def)
  have o: "OverlapsPrecious config0 0x100000000000 8192"
    by (simp add: OverlapsPrecious_def config0_def)
  have "\<not> IsFullyUnmapped config0 (system1 \<lparr> invalidated := True \<rparr>) 0x100000000000 8192"
    by (simp add: IsFullyUnmapped_def o) (simp add: config0_def)
  with v f show ?thesis
    by blast
qed

subsection \<open>The page pool\<close>







lemma only_clears_same_mem: "mem s' = mem s \<Longrightarrow> only_clears s s'"
  by (simp add: only_clears_def)















subsection \<open>Evaluating calls from \<open>system_start\<close>\<close>






subsection \<open>Claim C8\<close>



end
